(* ===== verification/Rust_Prelude.thy ===== *)
theory Rust_Prelude
  imports
    Main
    "HOL-Library.Word"
    "HOL-Library.Multiset"
    "HOL-Library.AList"
    "HOL-Library.Sublist"
    "HOL-Library.List_Lexorder"
    "HOL-Library.Char_ord"
begin

text \<open>
  What the components share: machine integers, panics and results as values, a state and panic
  monad, the clock, read/write locks with poisoning, the string operations of the Rust standard
  library the program calls, counters in concurrent maps, descending order for stable sorting,
  and the lemma collections of the development.

  Arithmetic is that of a release build (the build the Dockerfile makes): \<open>+\<close>, \<open>-\<close> and \<open>*\<close> on
  machine integers wrap around. A string is the list of its UTF-8 bytes.
\<close>

section \<open>Lemma collections\<close>

named_theorems frame_simps "fields an operation leaves unchanged"
named_theorems step_defs "definitions of the operations, unfolded together by the invariant proofs"

section \<open>Machine integers\<close>

type_synonym u8 = "8 word"
type_synonym u16 = "16 word"
type_synonym u32 = "32 word"
type_synonym u64 = "64 word"

text \<open>A signed 64-bit integer is an \<open>int\<close> in range; these are the \<open>as\<close> casts between the two.\<close>

definition u64_as_i64 :: "u64 \<Rightarrow> int" where
  "u64_as_i64 w = sint w"

definition i64_as_u64 :: "int \<Rightarrow> u64" where
  "i64_as_u64 i = word_of_int i"

definition i64_wrap :: "int \<Rightarrow> int" where
  "i64_wrap i = sint (word_of_int i :: u64)"

lemma i64_as_u64_as_i64 [simp]: "i64_as_u64 (u64_as_i64 w) = w"
  by (simp add: i64_as_u64_def u64_as_i64_def)

lemma u64_as_i64_small: "unat w < 2 ^ 63 \<Longrightarrow> u64_as_i64 w = int (unat w)"
proof -
  assume "unat w < 2 ^ 63"
  moreover have "n < 2 ^ 63 \<Longrightarrow> signed_take_bit 63 (int n) = int n" for n
    by (intro signed_take_bit_int_eq_self) simp_all
  ultimately have "signed_take_bit 63 (int (unat w)) = int (unat w)" by blast
  moreover have "sint w = signed_take_bit 63 (uint w)" by (simp add: sint_uint)
  ultimately show ?thesis by (simp only: u64_as_i64_def uint_nat)
qed

lemma i64_wrap_small: "- (2 ^ 63) \<le> i \<Longrightarrow> i < 2 ^ 63 \<Longrightarrow> i64_wrap i = i"
  by (simp add: i64_wrap_def sint_sbintrunc' signed_take_bit_int_eq_self)

lemma i64_wrap_diff: "a < 2 ^ 63 \<Longrightarrow> b < 2 ^ 63 \<Longrightarrow> i64_wrap (int a - int b) = int a - int b"
  by (rule i64_wrap_small) (simp_all add: algebra_simps)

lemma i64_wrap_int: "a < 2 ^ 63 \<Longrightarrow> i64_wrap (int a) = int a"
  using i64_wrap_diff [of a 0] by simp

section \<open>Panics, results and state passing\<close>

text \<open>Every panic the sources can raise, named after its cause.\<close>

datatype panic =
    NoQueryInRequest
  | SendResponseFailed
  | LockPoisoned
  | InstantOverflow
  | RemainderByZero
  | ClockBeforeEpoch
  | ZeroPeriod
  | UnwrapFailed string

type_synonym 'a outcome = "panic + 'a"
type_synonym ('s, 'a) st = "'s \<Rightarrow> 'a outcome \<times> 's"

definition st_return :: "'a \<Rightarrow> ('s, 'a) st" where
  "st_return x s = (Inr x, s)"

definition st_bind :: "('s, 'a) st \<Rightarrow> ('a \<Rightarrow> ('s, 'b) st) \<Rightarrow> ('s, 'b) st" where
  "st_bind m k s = (case m s of (Inl p, s') \<Rightarrow> (Inl p, s') | (Inr x, s') \<Rightarrow> k x s')"

definition st_modify :: "('s \<Rightarrow> 's) \<Rightarrow> ('s, unit) st" where
  "st_modify f s = (Inr (), f s)"

definition st_lift :: "('s \<Rightarrow> 'a outcome) \<Rightarrow> ('s, 'a) st" where
  "st_lift f s = (f s, s)"

lemmas st_defs = st_return_def st_bind_def st_modify_def st_lift_def

definition res_bind :: "'e + 'a \<Rightarrow> ('a \<Rightarrow> 'e + 'b) \<Rightarrow> 'e + 'b" where
  "res_bind r k = (case r of Inl e \<Rightarrow> Inl e | Inr x \<Rightarrow> k x)"

lemma res_bind_simps [simp]:
  "res_bind (Inl e) k = Inl e" "res_bind (Inr x) k = k x"
  by (simp_all add: res_bind_def)

lemma st_bind_return [simp]: "st_bind (st_return x) k = k x"
  by (simp add: st_defs fun_eq_iff)

lemma st_bind_assoc: "st_bind (st_bind m k) l = st_bind m (\<lambda>x. st_bind (k x) l)"
  by (auto simp: st_bind_def fun_eq_iff split: prod.splits sum.splits)

text \<open>
  An invariant of the state kept by a computation whatever its outcome (a panic included): the
  rules let the automation follow the structure of a handler.
\<close>

definition st_keeps :: "('s \<Rightarrow> bool) \<Rightarrow> ('s, 'a) st \<Rightarrow> bool" where
  "st_keeps I m \<longleftrightarrow> (\<forall>s. I s \<longrightarrow> I (snd (m s)))"

lemma st_keepsI: "(\<And>s. I s \<Longrightarrow> I (snd (m s))) \<Longrightarrow> st_keeps I m"
  by (simp add: st_keeps_def)

lemma st_keepsD: "st_keeps I m \<Longrightarrow> I s \<Longrightarrow> I (snd (m s))"
  by (simp add: st_keeps_def)

lemma st_keeps_return [intro, simp]: "st_keeps I (st_return x)"
  by (simp add: st_keeps_def st_return_def)

lemma st_keeps_lift [intro, simp]: "st_keeps I (st_lift f)"
  by (simp add: st_keeps_def st_lift_def)

lemma st_keeps_bind [intro]:
  "st_keeps I m \<Longrightarrow> (\<And>x. st_keeps I (k x)) \<Longrightarrow> st_keeps I (st_bind m k)"
  by (auto simp: st_keeps_def st_bind_def split: prod.splits sum.splits)

lemma st_keeps_modify: "(\<And>s. I s \<Longrightarrow> I (f s)) \<Longrightarrow> st_keeps I (st_modify f)"
  by (simp add: st_keeps_def st_modify_def)

section \<open>The clock\<close>

text \<open>
  \<open>Instant\<close> and \<open>Duration\<close> are counted in nanoseconds; \<open>Instant\<close> holds its seconds in a signed
  64-bit integer, and \<open>Instant + Duration\<close> panics when they do not fit.
\<close>

type_synonym instant = nat
type_synonym duration = nat

definition ns_per_sec :: nat where
  "ns_per_sec = 1000000000"

definition instant_limit :: nat where
  "instant_limit = 2 ^ 63 * ns_per_sec"

definition duration_from_secs :: "u64 \<Rightarrow> duration" where
  "duration_from_secs s = unat s * ns_per_sec"

definition duration_as_secs :: "duration \<Rightarrow> u64" where
  "duration_as_secs d = of_nat (d div ns_per_sec)"

definition duration_as_millis :: "duration \<Rightarrow> u64" where
  "duration_as_millis d = of_nat (d div 1000000)"

definition instant_add :: "instant \<Rightarrow> duration \<Rightarrow> instant outcome" where
  "instant_add t d = (if t + d < instant_limit then Inr (t + d) else Inl InstantOverflow)"

lemma ns_per_sec_pos [simp]: "0 < ns_per_sec"
  by (simp add: ns_per_sec_def)

lemma instant_add_Inr: "instant_add t d = Inr u \<longleftrightarrow> u = t + d \<and> t + d < instant_limit"
  by (auto simp: instant_add_def)

lemma instant_add_Inl: "instant_add t d = Inl p \<longleftrightarrow> p = InstantOverflow \<and> instant_limit \<le> t + d"
  by (auto simp: instant_add_def)

lemma duration_as_secs_from_secs [simp]: "duration_as_secs (duration_from_secs s) = s"
  by (simp add: duration_as_secs_def duration_from_secs_def ns_per_sec_def)

text \<open>The wall clock: nanoseconds since 1970, negative before; reading it before panics.\<close>

type_synonym systemtime = int

definition unix_secs :: "systemtime \<Rightarrow> u64 outcome" where
  "unix_secs t = (if t < 0 then Inl ClockBeforeEpoch
     else Inr (of_nat (nat t div ns_per_sec)))"

section \<open>Read/write locks\<close>

text \<open>
  A panic of a thread that holds the write guard poisons the lock, and \<open>read().unwrap()\<close> and
  \<open>write().unwrap()\<close> panic from then on.
\<close>

record 'a rwlock =
  lk_value :: 'a
  lk_poisoned :: bool

definition rw_new :: "'a \<Rightarrow> 'a rwlock" where
  "rw_new v = \<lparr>lk_value = v, lk_poisoned = False\<rparr>"

definition rw_read :: "'a rwlock \<Rightarrow> 'a outcome" where
  "rw_read l = (if lk_poisoned l then Inl LockPoisoned else Inr (lk_value l))"

definition rw_write :: "('a \<Rightarrow> 'a outcome) \<Rightarrow> 'a rwlock \<Rightarrow> unit outcome \<times> 'a rwlock" where
  "rw_write f l =
     (if lk_poisoned l then (Inl LockPoisoned, l)
      else case f (lk_value l) of
        Inl p \<Rightarrow> (Inl p, l\<lparr>lk_poisoned := True\<rparr>)
      | Inr v \<Rightarrow> (Inr (), l\<lparr>lk_value := v\<rparr>))"

lemma rw_new_simps [simp]: "lk_value (rw_new v) = v" "\<not> lk_poisoned (rw_new v)"
  by (simp_all add: rw_new_def)

lemma rw_write_poisoned [simp]: "lk_poisoned l \<Longrightarrow> rw_write f l = (Inl LockPoisoned, l)"
  by (simp add: rw_write_def)

lemma rw_write_total: "\<not> lk_poisoned l \<Longrightarrow> rw_write (\<lambda>v. Inr (g v)) l = (Inr (), l\<lparr>lk_value := g (lk_value l)\<rparr>)"
  by (simp add: rw_write_def)

end
