(* ===== verification/Rust_Strings.thy ===== *)
theory Rust_Strings
  imports Rust_Prelude
begin

text \<open>
  The operations of \<open>str\<close> the program calls, on the UTF-8 bytes of a string: \<open>find\<close> of an ASCII
  character and slicing after it, \<open>contains\<close>, \<open>trim\<close>, \<open>trim_start_matches\<close>, \<open>starts_with\<close>,
  \<open>ends_with\<close> and \<open>pop\<close>, the two lower-casing functions, and the decimal \<open>Display\<close> of an
  unsigned integer.
\<close>

section \<open>Searching\<close>

fun str_find :: "char \<Rightarrow> string \<Rightarrow> nat option" where
  "str_find c [] = None"
| "str_find c (x # xs) = (if x = c then Some 0 else map_option Suc (str_find c xs))"

fun str_contains :: "string \<Rightarrow> string \<Rightarrow> bool" where
  "str_contains [] pat = (pat = [])"
| "str_contains (x # xs) pat = (prefix pat (x # xs) \<or> str_contains xs pat)"

lemma str_find_None: "str_find c s = None \<longleftrightarrow> c \<notin> set s"
  by (induction s) auto

lemma str_find_Some:
  "str_find c s = Some i \<longleftrightarrow> (\<exists>a b. s = a @ c # b \<and> c \<notin> set a \<and> length a = i)"
proof (induction s arbitrary: i)
  case Nil
  then show ?case by simp
next
  case (Cons x xs)
  show ?case
  proof (cases "x = c")
    case True
    then show ?thesis by (auto simp: Cons_eq_append_conv)
  next
    case False
    have "(\<exists>a b. x # xs = a @ c # b \<and> c \<notin> set a \<and> length a = i) \<longleftrightarrow>
        (\<exists>j a b. i = Suc j \<and> xs = a @ c # b \<and> c \<notin> set a \<and> length a = j)"
      (is "?l \<longleftrightarrow> ?r")
    proof
      assume ?l
      with False show ?r by (fastforce simp: Cons_eq_append_conv)
    next
      assume ?r
      then obtain a b where "i = Suc (length a)" "xs = a @ c # b" "c \<notin> set a" by blast
      with False show ?l by (intro exI [of _ "x # a"] exI [of _ b]) simp
    qed
    with False show ?thesis by (auto simp: Cons.IH)
  qed
qed

lemma str_find_length: "str_find c s = Some i \<Longrightarrow> i < length s"
  by (auto simp: str_find_Some)

lemma str_contains_iff: "str_contains s pat \<longleftrightarrow> sublist pat s"
  by (induction s) (auto simp: sublist_Cons_right)

lemma str_contains_append: "str_contains a pat \<Longrightarrow> str_contains (a @ b) pat"
  unfolding str_contains_iff by (auto simp: sublist_def) (metis append.assoc)

lemma str_contains_append_right: "str_contains b pat \<Longrightarrow> str_contains (a @ b) pat"
  unfolding str_contains_iff by (auto simp: sublist_def) (metis append.assoc)

section \<open>Trimming\<close>

text \<open>The UTF-8 encodings of the characters with the Unicode property \<open>White_Space\<close>.\<close>

definition ws_chars :: "string list" where
  "ws_chars =
     [[CHR 0x09], [CHR 0x0A], [CHR 0x0B], [CHR 0x0C], [CHR 0x0D], [CHR 0x20],
      [CHR 0xC2, CHR 0x85], [CHR 0xC2, CHR 0xA0], [CHR 0xE1, CHR 0x9A, CHR 0x80],
      [CHR 0xE2, CHR 0x80, CHR 0x80], [CHR 0xE2, CHR 0x80, CHR 0x81],
      [CHR 0xE2, CHR 0x80, CHR 0x82], [CHR 0xE2, CHR 0x80, CHR 0x83],
      [CHR 0xE2, CHR 0x80, CHR 0x84], [CHR 0xE2, CHR 0x80, CHR 0x85],
      [CHR 0xE2, CHR 0x80, CHR 0x86], [CHR 0xE2, CHR 0x80, CHR 0x87],
      [CHR 0xE2, CHR 0x80, CHR 0x88], [CHR 0xE2, CHR 0x80, CHR 0x89],
      [CHR 0xE2, CHR 0x80, CHR 0x8A], [CHR 0xE2, CHR 0x80, CHR 0xA8],
      [CHR 0xE2, CHR 0x80, CHR 0xA9], [CHR 0xE2, CHR 0x80, CHR 0xAF],
      [CHR 0xE2, CHR 0x81, CHR 0x9F], [CHR 0xE3, CHR 0x80, CHR 0x80]]"

function strip_front :: "string list \<Rightarrow> string \<Rightarrow> string" where
  "strip_front ws s =
     (case find (\<lambda>w. w \<noteq> [] \<and> prefix w s) ws of
        None \<Rightarrow> s
      | Some w \<Rightarrow> strip_front ws (drop (length w) s))"
  by pat_completeness auto
termination
proof (relation "measure (\<lambda>(ws, s). length s)", goal_cases)
  case 1
  show ?case by simp
next
  case (2 ws s w)
  then have "w \<noteq> []" "prefix w s"
    by (auto simp: find_Some_iff)
  then show ?case by (auto simp: prefix_def)
qed

declare strip_front.simps [simp del]

definition trim :: "string \<Rightarrow> string" where
  "trim s = rev (strip_front (map rev ws_chars) (rev (strip_front ws_chars s)))"

lemma strip_front_suffix: "suffix (strip_front ws s) s"
proof (induction ws s rule: strip_front.induct)
  case (1 ws s)
  show ?case
  proof (cases "find (\<lambda>w. w \<noteq> [] \<and> prefix w s) ws")
    case None
    then show ?thesis by (simp add: strip_front.simps [of ws s])
  next
    case (Some w)
    with 1 have "suffix (strip_front ws (drop (length w) s)) (drop (length w) s)" by blast
    then show ?thesis
      using Some by (simp add: strip_front.simps [of ws s])
        (meson suffix_drop suffix_order.trans)
  qed
qed

lemma strip_front_id: "(\<And>w. w \<in> set ws \<Longrightarrow> w \<noteq> [] \<Longrightarrow> \<not> prefix w s) \<Longrightarrow> strip_front ws s = s"
  by (subst strip_front.simps) (auto simp: find_None_iff dest!: find_Some_iff [THEN iffD1]
      split: option.splits)

lemma strip_front_stripped:
  "w \<in> set ws \<Longrightarrow> w \<noteq> [] \<Longrightarrow> \<not> prefix w (strip_front ws s)"
proof (induction ws s rule: strip_front.induct)
  case (1 ws s)
  show ?case
  proof (cases "find (\<lambda>w. w \<noteq> [] \<and> prefix w s) ws")
    case None
    then have "strip_front ws s = s" by (subst strip_front.simps) simp
    with None "1.prems" show ?thesis by (auto simp: find_None_iff)
  next
    case (Some v)
    with 1 show ?thesis by (simp add: strip_front.simps [of ws s])
  qed
qed

lemma trim_sublist: "sublist (trim s) s"
proof -
  have "prefix (trim s) (strip_front ws_chars s)"
    using strip_front_suffix [of "map rev ws_chars" "rev (strip_front ws_chars s)"]
    by (simp add: trim_def suffix_to_prefix)
  then show ?thesis
    using strip_front_suffix [of ws_chars s]
    by (meson prefix_imp_sublist suffix_imp_sublist sublist_order.order_trans)
qed

text \<open>A trimmed string has no white space character at either end; trimming yields one, and keeps one.\<close>

definition trimmed :: "string \<Rightarrow> bool" where
  "trimmed s \<longleftrightarrow> (\<forall>w \<in> set ws_chars. \<not> prefix w s \<and> \<not> suffix w s)"

lemma ws_chars_nonempty: "w \<in> set ws_chars \<Longrightarrow> w \<noteq> []"
  by (auto simp: ws_chars_def)

lemma trim_trimmed: "trimmed (trim s)"
proof -
  let ?t = "strip_front ws_chars s"
  have "prefix (trim s) ?t"
    using strip_front_suffix [of "map rev ws_chars" "rev ?t"]
    by (simp add: trim_def suffix_to_prefix)
  then have "\<not> prefix w (trim s)" if "w \<in> set ws_chars" for w
    using that strip_front_stripped ws_chars_nonempty prefix_order.trans by meson
  moreover have "\<not> suffix w (trim s)" if "w \<in> set ws_chars" for w
  proof -
    have "rev w \<in> set (map rev ws_chars)" "rev w \<noteq> []"
      using that ws_chars_nonempty by auto
    then have "\<not> prefix (rev w) (strip_front (map rev ws_chars) (rev ?t))"
      by (rule strip_front_stripped)
    then show ?thesis by (simp add: trim_def suffix_to_prefix)
  qed
  ultimately show ?thesis by (simp add: trimmed_def)
qed

lemma trim_id: "trimmed s \<Longrightarrow> trim s = s"
proof -
  assume t: "trimmed s"
  then have "strip_front ws_chars s = s"
    by (intro strip_front_id) (auto simp: trimmed_def)
  moreover have "strip_front (map rev ws_chars) (rev s) = rev s"
    using t by (intro strip_front_id) (auto simp: trimmed_def suffix_to_prefix)
  ultimately show ?thesis by (simp add: trim_def)
qed

section \<open>Leading and trailing characters\<close>

definition starts_with :: "string \<Rightarrow> char \<Rightarrow> bool" where
  "starts_with s c \<longleftrightarrow> (case s of [] \<Rightarrow> False | x # _ \<Rightarrow> x = c)"

definition ends_with :: "string \<Rightarrow> char \<Rightarrow> bool" where
  "ends_with s c \<longleftrightarrow> s \<noteq> [] \<and> last s = c"

definition trim_start_matches :: "char \<Rightarrow> string \<Rightarrow> string" where
  "trim_start_matches c s = dropWhile (\<lambda>x. x = c) s"

section \<open>Case\<close>

definition ascii_lower :: "char \<Rightarrow> char" where
  "ascii_lower c =
     (let n = of_char c :: nat in if 65 \<le> n \<and> n \<le> 90 then char_of (n + 32) else c)"

definition make_ascii_lowercase :: "string \<Rightarrow> string" where
  "make_ascii_lowercase s = map ascii_lower s"

definition is_ascii :: "string \<Rightarrow> bool" where
  "is_ascii s \<longleftrightarrow> list_all (\<lambda>c. (of_char c :: nat) < 128) s"

text \<open>
  \<open>str::to_lowercase\<close> follows the Unicode tables; they are the parameter \<open>uni\<close>, asked only for a
  string with a character beyond ASCII.
\<close>

definition to_lowercase :: "(string \<Rightarrow> string) \<Rightarrow> string \<Rightarrow> string" where
  "to_lowercase uni s = (if is_ascii s then map ascii_lower s else uni s)"

lemma of_char_ascii_lower:
  "(of_char (ascii_lower c) :: nat) =
     (if 65 \<le> (of_char c :: nat) \<and> (of_char c :: nat) \<le> 90 then of_char c + 32 else of_char c)"
  by (simp add: ascii_lower_def Let_def)

lemma ascii_lower_idem [simp]: "ascii_lower (ascii_lower c) = ascii_lower c"
  by (rule iffD1 [OF of_char_eq_iff [where 'a = nat]]) (simp add: of_char_ascii_lower)

lemma make_ascii_lowercase_idem [simp]:
  "make_ascii_lowercase (make_ascii_lowercase s) = make_ascii_lowercase s"
  by (simp add: make_ascii_lowercase_def)

lemma length_make_ascii_lowercase [simp]: "length (make_ascii_lowercase s) = length s"
  by (simp add: make_ascii_lowercase_def)

definition is_upper :: "char \<Rightarrow> bool" where
  "is_upper c \<longleftrightarrow> 65 \<le> (of_char c :: nat) \<and> (of_char c :: nat) \<le> 90"

lemma ascii_lower_not_upper [simp]: "\<not> is_upper (ascii_lower c)"
  by (simp add: is_upper_def of_char_ascii_lower)

lemma make_ascii_lowercase_no_upper: "c \<in> set (make_ascii_lowercase s) \<Longrightarrow> \<not> is_upper c"
  by (auto simp: make_ascii_lowercase_def)

text \<open>Lower-casing a trimmed string leaves it trimmed: no white space byte is a letter.\<close>

lemma ws_chars_not_lower:
  "w \<in> set ws_chars \<Longrightarrow> c \<in> set w \<Longrightarrow> \<not> (97 \<le> (of_char c :: nat) \<and> (of_char c :: nat) \<le> 122)"
  by (auto simp: ws_chars_def)

lemma ascii_lower_other:
  "\<not> (97 \<le> (of_char (ascii_lower c) :: nat) \<and> (of_char (ascii_lower c) :: nat) \<le> 122) \<Longrightarrow>
   ascii_lower c = c"
  by (auto simp: of_char_ascii_lower ascii_lower_def Let_def split: if_splits)

lemma ascii_lower_hash: "ascii_lower c = CHR ''#'' \<Longrightarrow> c = CHR ''#''"
  using ascii_lower_other [of c] by simp

lemma map_ascii_lower_ws:
  "w \<in> set ws_chars \<Longrightarrow> map ascii_lower v = w \<Longrightarrow> v = w"
  using ws_chars_not_lower ascii_lower_other by (auto intro!: map_idI [symmetric])

lemma trimmed_lower: "trimmed s \<Longrightarrow> trimmed (map ascii_lower s)"
  unfolding trimmed_def
  by (metis map_ascii_lower_ws map_mono_prefix prefix_map_rightE suffix_map_rightE)

lemma is_ascii_lower: "is_ascii s \<Longrightarrow> is_ascii (map ascii_lower s)"
  by (auto simp: is_ascii_def list_all_iff of_char_ascii_lower)

lemma is_ascii_trim: "is_ascii s \<Longrightarrow> is_ascii (trim s)"
  using trim_sublist [of s] by (auto simp: is_ascii_def list_all_iff dest: set_mono_sublist)

section \<open>Decimal display\<close>

fun dec :: "nat \<Rightarrow> string" where
  "dec n = (if n < 10 then [char_of (48 + n)] else dec (n div 10) @ [char_of (48 + n mod 10)])"

declare dec.simps [simp del]

definition show_u64 :: "u64 \<Rightarrow> string" where
  "show_u64 w = dec (unat w)"

text \<open>Reading the digits back: the decimal form determines the number.\<close>

definition undec :: "string \<Rightarrow> nat" where
  "undec s = foldl (\<lambda>n c. 10 * n + (of_char c - 48)) 0 s"

lemma undec_dec: "undec (dec n) = n"
proof (induction n rule: dec.induct)
  case (1 n)
  show ?case
  proof (cases "n < 10")
    case True
    then show ?thesis by (subst dec.simps) (simp add: undec_def of_char_of)
  next
    case False
    with 1 have "undec (dec (n div 10)) = n div 10" by blast
    moreover have "(48 + n mod 10) mod 256 = 48 + n mod 10" by simp
    ultimately show ?thesis
      using False by (subst dec.simps) (simp add: undec_def of_char_of)
  qed
qed

lemma dec_inj: "dec m = dec n \<Longrightarrow> m = n"
  by (metis undec_dec)

lemma show_u64_inj: "show_u64 a = show_u64 b \<Longrightarrow> a = b"
  by (simp add: show_u64_def dec_inj word_unat_eq_iff)

end
