(* ===== verification/Rust_Collections.thy ===== *)
theory Rust_Collections
  imports Rust_Strings
begin

text \<open>
  Collections: Rust's \<open>cmp::Reverse\<close> order and the stable descending sort built on it, the
  selection of the \<open>k\<close> greatest, concurrent maps of counters, and arrays of atomic counters.
\<close>

section \<open>Descending order\<close>

text \<open>\<open>sort_by(|a, b| b.key.cmp(&a.key))\<close> is the stable sort by the reversed order of the keys.\<close>

datatype 'a reverse = Reverse (unreverse: 'a)

instantiation reverse :: (linorder) linorder
begin

definition less_eq_reverse :: "'a reverse \<Rightarrow> 'a reverse \<Rightarrow> bool" where
  "less_eq_reverse a b \<longleftrightarrow> unreverse b \<le> unreverse a"

definition less_reverse :: "'a reverse \<Rightarrow> 'a reverse \<Rightarrow> bool" where
  "less_reverse a b \<longleftrightarrow> unreverse b < unreverse a"

instance
  by standard (auto simp: less_eq_reverse_def less_reverse_def reverse.expand)

end

lemma reverse_le [simp]: "Reverse a \<le> Reverse b \<longleftrightarrow> b \<le> a"
  by (simp add: less_eq_reverse_def)

lemma reverse_less [simp]: "Reverse a < Reverse b \<longleftrightarrow> b < a"
  by (simp add: less_reverse_def)

definition sort_by_desc :: "('a \<Rightarrow> 'k :: linorder) \<Rightarrow> 'a list \<Rightarrow> 'a list" where
  "sort_by_desc f xs = sort_key (\<lambda>x. Reverse (f x)) xs"

definition top_k :: "('a \<Rightarrow> 'k :: linorder) \<Rightarrow> nat \<Rightarrow> 'a list \<Rightarrow> 'a list" where
  "top_k f k xs = take k (sort_by_desc f xs)"

lemma mset_sort_by_desc [simp]: "mset (sort_by_desc f xs) = mset xs"
  by (simp add: sort_by_desc_def)

lemma set_sort_by_desc [simp]: "set (sort_by_desc f xs) = set xs"
  by (simp add: sort_by_desc_def)

lemma length_sort_by_desc [simp]: "length (sort_by_desc f xs) = length xs"
  by (simp add: sort_by_desc_def)

lemma sort_by_desc_sorted: "sorted_wrt (\<lambda>x y. f y \<le> f x) (sort_by_desc f xs)"
proof -
  have "sorted (map (\<lambda>x. Reverse (f x)) (sort_by_desc f xs))"
    by (simp add: sort_by_desc_def)
  then show ?thesis by (simp add: sorted_map)
qed

lemma sort_by_desc_filter: "filter P (sort_by_desc f xs) = sort_by_desc f (filter P xs)"
  by (simp add: sort_by_desc_def filter_sort)

text \<open>A list with ascending keys comes out reversed, in whatever order it is read.\<close>

lemma sort_by_desc_rev:
  assumes "mset xs = mset ys" "sorted_wrt (<) (map f ys)"
  shows "sort_by_desc f xs = rev ys"
proof -
  let ?k = "\<lambda>x. Reverse (f x)"
  have "inj_on f (set ys)" using assms(2) by (metis distinct_map strict_sorted_iff)
  then have "inj_on ?k (set xs)"
    using mset_eq_setD [OF assms(1)] by (simp add: inj_on_def)
  moreover have "sorted (map ?k (rev ys))"
    unfolding sorted_map sorted_wrt_rev using assms(2)
    by (auto simp: sorted_wrt_map intro: sorted_wrt_mono_rel [rotated])
  ultimately show ?thesis
    unfolding sort_by_desc_def using assms(1) by (intro sort_key_inj_key_eq) simp_all
qed

text \<open>The keys of the sorted list depend on the multiset only, not on the order it was read in.\<close>

lemma sort_by_desc_keys:
  assumes "mset xs = mset ys"
  shows "map f (sort_by_desc f xs) = map f (sort_by_desc f ys)"
proof -
  have "sort (map (\<lambda>x. Reverse (f x)) xs) = sort (map (\<lambda>x. Reverse (f x)) ys)"
    using assms by (metis mset_map sorted_list_of_multiset_mset)
  moreover have "map (\<lambda>x. Reverse (f x)) (sort_by_desc f zs) = sort (map (\<lambda>x. Reverse (f x)) zs)" for zs
    by (rule properties_for_sort [symmetric]) (simp_all add: sort_by_desc_def)
  ultimately have "map (\<lambda>x. Reverse (f x)) (sort_by_desc f xs)
      = map (\<lambda>x. Reverse (f x)) (sort_by_desc f ys)" by simp
  then have "map unreverse (map (\<lambda>x. Reverse (f x)) (sort_by_desc f xs))
      = map unreverse (map (\<lambda>x. Reverse (f x)) (sort_by_desc f ys))" by simp
  then show ?thesis by (simp add: comp_def)
qed

lemma top_k_keys: "mset xs = mset ys \<Longrightarrow> map f (top_k f k xs) = map f (top_k f k ys)"
  using sort_by_desc_keys [of xs ys f] by (simp add: top_k_def flip: take_map)

lemma length_top_k [simp]: "length (top_k f k xs) = min k (length xs)"
  by (simp add: top_k_def)

lemma top_k_sorted: "sorted_wrt (\<lambda>x y. f y \<le> f x) (top_k f k xs)"
  by (simp add: top_k_def sorted_wrt_take sort_by_desc_sorted)

lemma top_k_subset: "mset (top_k f k xs) \<subseteq># mset xs"
proof -
  have "mset (take k (sort_by_desc f xs)) \<subseteq># mset (sort_by_desc f xs)"
    by (metis append_take_drop_id mset_append mset_subset_eq_add_left)
  then show ?thesis by (simp add: top_k_def)
qed

lemma top_k_rest: "mset xs - mset (top_k f k xs) = mset (drop k (sort_by_desc f xs))"
proof -
  have "mset xs = mset (take k (sort_by_desc f xs) @ drop k (sort_by_desc f xs))"
    by (simp del: mset_append)
  then show ?thesis by (simp only: mset_append top_k_def add_diff_cancel_left')
qed

lemma top_k_greatest:
  assumes "x \<in> set (top_k f k xs)" "y \<in># mset xs - mset (top_k f k xs)"
  shows "f y \<le> f x"
proof -
  have "sorted_wrt (\<lambda>x y. f y \<le> f x) (take k (sort_by_desc f xs) @ drop k (sort_by_desc f xs))"
    by (simp add: sort_by_desc_sorted)
  with assms show ?thesis
    unfolding sorted_wrt_append top_k_rest by (auto simp: top_k_def)
qed

section \<open>Maps of counters\<close>

text \<open>
  A concurrent map of counters is the list of its entries, in some order; iterating over it
  yields them in an order of the map's own, the parameter \<open>iter\<close> of the readers below.
\<close>

type_synonym 'k counters = "('k \<times> u64) list"

text \<open>\<open>*map.entry(k).or_insert(0) += 1\<close>\<close>

definition entry_inc :: "'k \<Rightarrow> 'k counters \<Rightarrow> 'k counters" where
  "entry_inc k m = AList.map_entry k (\<lambda>c. c + 1) (AList.map_default k 0 (\<lambda>c. c) m)"

definition counter_of :: "'k counters \<Rightarrow> 'k \<Rightarrow> u64" where
  "counter_of m k = (case map_of m k of None \<Rightarrow> 0 | Some c \<Rightarrow> c)"

definition counters_total :: "'k counters \<Rightarrow> u64" where
  "counters_total m = sum_list (map snd m)"

definition is_iteration :: "('k counters \<Rightarrow> 'k counters) \<Rightarrow> bool" where
  "is_iteration iter \<longleftrightarrow> (\<forall>m. mset (iter m) = mset m)"

lemma is_iteration_id: "is_iteration (\<lambda>m. m)"
  by (simp add: is_iteration_def)

lemma map_default_keep: "AList.map_default k 0 (\<lambda>c. c) m = (if k \<in> fst ` set m then m else m @ [(k, 0)])"
  by (induction m) auto

lemma entry_inc_Nil [simp]: "entry_inc k [] = [(k, 1)]"
  by (simp add: entry_inc_def)

lemma entry_inc_Cons [simp]:
  "entry_inc k ((k', c) # m) = (if k' = k then (k', c + 1) # m else (k', c) # entry_inc k m)"
  by (simp add: entry_inc_def)

lemma counter_of_entry_inc:
  "counter_of (entry_inc k m) k' = (if k' = k then counter_of m k + 1 else counter_of m k')"
  by (induction m) (auto simp: counter_of_def)

lemma counters_total_entry_inc [simp]: "counters_total (entry_inc k m) = counters_total m + 1"
  by (induction m) (auto simp: counters_total_def)

lemma keys_entry_inc: "map fst (entry_inc k m) = (if k \<in> set (map fst m) then map fst m else map fst m @ [k])"
proof (induction m)
  case (Cons x m)
  then show ?case by (cases x) simp
qed simp

lemma distinct_entry_inc [simp]: "distinct (map fst m) \<Longrightarrow> distinct (map fst (entry_inc k m))"
  by (auto simp: keys_entry_inc)

section \<open>Arrays of counters\<close>

text \<open>\<open>fetch_add\<close> on a cell of an array of atomics; it wraps around.\<close>

definition fetch_add_at :: "nat \<Rightarrow> u64 \<Rightarrow> u64 list \<Rightarrow> u64 list" where
  "fetch_add_at i d a = a[i := a ! i + d]"

lemma length_fetch_add_at [simp]: "length (fetch_add_at i d a) = length a"
  by (simp add: fetch_add_at_def)

lemma nth_fetch_add_at:
  "j < length a \<Longrightarrow> fetch_add_at i d a ! j = (if j = i then a ! j + d else a ! j)"
  by (auto simp: fetch_add_at_def nth_list_update)

lemma sum_list_fetch_add_at [simp]:
  "i < length a \<Longrightarrow> sum_list (fetch_add_at i d a) = sum_list a + d"
  by (induction a arbitrary: i) (auto simp: fetch_add_at_def split: nat.splits)

section \<open>Lists\<close>

text \<open>Looking a key up in a list of pairs with distinct keys does not depend on its order.\<close>

lemma map_of_mset:
  assumes "distinct (map fst xs)" "mset xs = mset ys"
  shows "map_of xs = map_of ys"
proof -
  have "distinct (map fst ys)"
    using assms by (metis mset_eq_imp_distinct_iff mset_map)
  then show ?thesis
    using assms by (metis map_of_inject_set mset_eq_setD)
qed

definition opt_index :: "'a list \<Rightarrow> nat \<Rightarrow> 'a option" where
  "opt_index xs i = (if i < length xs then Some (xs ! i) else None)"

lemma opt_index_None [simp]: "opt_index xs i = None \<longleftrightarrow> length xs \<le> i"
  by (auto simp: opt_index_def)

lemma opt_index_Some: "opt_index xs i = Some x \<longleftrightarrow> i < length xs \<and> x = xs ! i"
  by (auto simp: opt_index_def)

section \<open>The latest entries of a list\<close>

definition latest :: "nat \<Rightarrow> 'a list \<Rightarrow> 'a list" where
  "latest n xs = drop (length xs - n) xs"

lemma latest_rev: "latest n xs = rev (take n (rev xs))"
  by (simp add: latest_def rev_take)

lemma latest_latest_append [simp]: "latest n (latest n xs @ ys) = latest n (xs @ ys)"
  by (simp add: latest_rev take_append)

lemma length_latest [simp]: "length (latest n xs) = min n (length xs)"
  by (simp add: latest_def)

lemma latest_all [simp]: "length xs \<le> n \<Longrightarrow> latest n xs = xs"
  by (simp add: latest_def)

lemma suffix_latest: "suffix (latest n xs) xs"
  by (simp add: latest_def suffix_drop)

end
