(* ===== verification/Dns_Types.thy ===== *)
theory Dns_Types
  imports Rust_Collections
begin

text \<open>
  The data the components exchange: what the program reads of the DNS library's messages (record
  types, records, headers, requests and responses), the contexts of \<open>src/server/types.rs\<close> and the
  log entries of \<open>src/logger/types.rs\<close>.
\<close>

section \<open>Addresses, record types, records\<close>

datatype ip = V4 u32 | V6 "128 word"

datatype rtype = RT_A | RT_AAAA | RT_Other u16

datatype rdata = RD_A u32 | RD_AAAA "128 word" | RD_Other u16 string

fun rdata_type :: "rdata \<Rightarrow> rtype" where
  "rdata_type (RD_A _) = RT_A"
| "rdata_type (RD_AAAA _) = RT_AAAA"
| "rdata_type (RD_Other t _) = RT_Other t"

record dns_record =
  rec_name :: string
  rec_ttl :: u32
  rec_data :: rdata

definition record_type :: "dns_record \<Rightarrow> rtype" where
  "record_type r = rdata_type (rec_data r)"

definition from_rdata :: "string \<Rightarrow> u32 \<Rightarrow> rdata \<Rightarrow> dns_record" where
  "from_rdata n ttl d = \<lparr>rec_name = n, rec_ttl = ttl, rec_data = d\<rparr>"

lemma from_rdata_simps [simp]:
  "record_type (from_rdata n ttl d) = rdata_type d"
  "rec_ttl (from_rdata n ttl d) = ttl"
  "rec_data (from_rdata n ttl d) = d"
  by (simp_all add: from_rdata_def record_type_def)

section \<open>Requests and responses\<close>

datatype rcode = NoError | ServFail | NXDomain | OtherCode u16

record header =
  hd_id :: u16
  hd_authoritative :: bool
  hd_rcode :: rcode

text \<open>A query is the text of its name, as the DNS library prints it, and its type.\<close>

record request =
  rq_header :: header
  rq_queries :: "(string \<times> rtype) list"
  rq_src :: ip

record response =
  rs_header :: header
  rs_answers :: "dns_record list"

section \<open>The logger's entries and the handler's contexts\<close>

datatype query_log_action = Allowed | Blocked | Cached | Forwarded | Local

record query_log_entry =
  le_client_ip :: ip
  le_domain :: string
  le_query_type :: rtype
  le_action :: query_log_action
  le_source_id :: "u8 option"
  le_upstream :: "string option"
  le_latency_ms :: u64
  le_ttl_remaining :: "u64 option"

record query_context =
  qc_name :: string
  qc_qtype :: rtype
  qc_start :: instant

record log_context =
  lc_action :: query_log_action
  lc_source_id :: "u8 option"
  lc_upstream :: "string option"
  lc_ttl_remaining :: "u64 option"

text \<open>The derived \<open>Debug\<close> text of an action, also its serialised form.\<close>

fun show_action :: "query_log_action \<Rightarrow> string" where
  "show_action Allowed = ''Allowed''"
| "show_action Blocked = ''Blocked''"
| "show_action Cached = ''Cached''"
| "show_action Forwarded = ''Forwarded''"
| "show_action Local = ''Local''"

lemma show_action_inj [simp]: "show_action a = show_action b \<longleftrightarrow> a = b"
  by (cases a; cases b) simp_all

section \<open>Serialised entries\<close>

text \<open>
  The JSON object of an entry: \<open>upstream\<close> and \<open>ttl_remaining\<close> are left out when absent,
  \<open>source_id\<close> is null. The texts of addresses and record types are the parameters \<open>show_ip\<close> and
  \<open>show_rt\<close>.
\<close>

datatype json = JNull | JNum nat | JBool bool | JStr string | JObj "(string \<times> json) list"

definition serialize_record_type :: "(rtype \<Rightarrow> string) \<Rightarrow> rtype \<Rightarrow> json" where
  "serialize_record_type show_rt t = JStr (show_rt t)"

definition serialize_arc_str :: "string \<Rightarrow> json" where
  "serialize_arc_str d = JStr d"

definition serialize_entry :: "(ip \<Rightarrow> string) \<Rightarrow> (rtype \<Rightarrow> string) \<Rightarrow> query_log_entry \<Rightarrow> json" where
  "serialize_entry show_ip show_rt e = JObj
     ([(''client_ip'', JStr (show_ip (le_client_ip e))),
       (''domain'', serialize_arc_str (le_domain e)),
       (''query_type'', serialize_record_type show_rt (le_query_type e)),
       (''action'', JStr (show_action (le_action e))),
       (''source_id'', case le_source_id e of None \<Rightarrow> JNull | Some i \<Rightarrow> JNum (unat i))]
      @ (case le_upstream e of None \<Rightarrow> [] | Some u \<Rightarrow> [(''upstream'', JStr u)])
      @ [(''latency_ms'', JNum (unat (le_latency_ms e)))]
      @ (case le_ttl_remaining e of None \<Rightarrow> [] | Some t \<Rightarrow> [(''ttl_remaining'', JNum (unat t))]))"

end
