(* ===== verification/Config_Model.thy ===== *)
theory Config_Model
  imports Dns_Types
begin

text \<open>
  \<open>src/config.rs\<close>: the configuration records, their defaults, the reading of a document in which
  any field may be missing, and the sorted list of blocklists.
\<close>

section \<open>The records\<close>

text \<open>
  A \<open>HashMap\<close> of the configuration is the list of its entries in its iteration order; its keys
  are distinct (\<open>config_wf\<close>).
\<close>

record cache_config =
  cc_enable :: bool
  cc_capacity :: u64
  cc_grace_period_sec :: u64
  cc_min_ttl :: u32

record update_config =
  uc_interval_hours :: u64
  uc_concurrent_downloads :: u64

record logging_config =
  lg_enable :: bool
  lg_log_blocked :: bool
  lg_log_all_queries :: bool
  lg_format :: string
  lg_target :: string
  lg_level :: string
  lg_file_path :: "string option"
  lg_syslog_addr :: "string option"
  lg_query_log_sinks :: "string list"
  lg_sqlite_path :: string
  lg_sqlite_retention_hours :: u64

record stats_config =
  sc_enable :: bool
  sc_log_interval_seconds :: u64

record config =
  cf_host :: string
  cf_port :: u16
  cf_upstream_servers :: "string list"
  cf_resolution_policy :: string
  cf_upstream_timeout_ms :: u64
  cf_disable_ipv6 :: bool
  cf_bootstrap_dns :: "string list"
  cf_blocklists :: "(string \<times> string) list"
  cf_allowlist :: "string list"
  cf_cache :: cache_config
  cf_updates :: update_config
  cf_logging :: logging_config
  cf_local_records :: "(string \<times> ip) list"
  cf_stats :: stats_config

section \<open>The defaults\<close>

definition default_min_ttl :: u32 where "default_min_ttl = 300"
definition default_host :: string where "default_host = ''0.0.0.0''"
definition default_port :: u16 where "default_port = 5300"
definition default_resolution_policy :: string where "default_resolution_policy = ''parallel''"
definition default_upstream_timeout_ms :: u64 where "default_upstream_timeout_ms = 200"
definition default_cache_enable :: bool where "default_cache_enable = True"
definition default_cache_capacity :: u64 where "default_cache_capacity = 10000"
definition default_grace_period :: u64 where "default_grace_period = 10"
definition default_update_interval :: u64 where "default_update_interval = 24"
definition default_concurrent_downloads :: u64 where "default_concurrent_downloads = 4"
definition default_log_enable :: bool where "default_log_enable = True"
definition default_log_blocked :: bool where "default_log_blocked = True"
definition default_log_all_queries :: bool where "default_log_all_queries = True"
definition default_log_format :: string where "default_log_format = ''text''"
definition default_log_target :: string where "default_log_target = ''console''"
definition default_log_level :: string where "default_log_level = ''info''"
definition default_query_log_sinks :: "string list" where "default_query_log_sinks = [''console'']"
definition default_sqlite_path :: string where "default_sqlite_path = ''ad-nope.db''"
definition default_sqlite_retention_hours :: u64 where "default_sqlite_retention_hours = 168"
definition default_stats_enable :: bool where "default_stats_enable = True"
definition default_log_interval :: u64 where "default_log_interval = 300"
definition default_disable_ipv6 :: bool where "default_disable_ipv6 = False"

definition default_blocklists :: "(string \<times> string) list" where
  "default_blocklists = [(''default'',
     ''https://cdn.jsdelivr.net/gh/hagezi/dns-blocklists@latest/wildcard/pro-onlydomains.txt'')]"

definition default_upstream_servers :: "string list" where
  "default_upstream_servers = [''h3://dns.google/dns-query'']"

definition default_bootstrap_dns :: "string list" where
  "default_bootstrap_dns = [''8.8.8.8:53'']"

definition cache_config_default :: cache_config where
  "cache_config_default =
     \<lparr>cc_enable = default_cache_enable, cc_capacity = default_cache_capacity,
      cc_grace_period_sec = default_grace_period, cc_min_ttl = default_min_ttl\<rparr>"

definition update_config_default :: update_config where
  "update_config_default =
     \<lparr>uc_interval_hours = default_update_interval,
      uc_concurrent_downloads = default_concurrent_downloads\<rparr>"

definition logging_config_default :: logging_config where
  "logging_config_default =
     \<lparr>lg_enable = default_log_enable, lg_log_blocked = default_log_blocked,
      lg_log_all_queries = default_log_all_queries, lg_format = default_log_format,
      lg_target = default_log_target, lg_level = default_log_level,
      lg_file_path = None, lg_syslog_addr = None,
      lg_query_log_sinks = default_query_log_sinks, lg_sqlite_path = default_sqlite_path,
      lg_sqlite_retention_hours = default_sqlite_retention_hours\<rparr>"

definition stats_config_default :: stats_config where
  "stats_config_default =
     \<lparr>sc_enable = default_stats_enable, sc_log_interval_seconds = default_log_interval\<rparr>"

definition config_default :: config where
  "config_default =
     \<lparr>cf_host = default_host, cf_port = default_port,
      cf_upstream_servers = default_upstream_servers,
      cf_resolution_policy = default_resolution_policy,
      cf_upstream_timeout_ms = default_upstream_timeout_ms,
      cf_disable_ipv6 = default_disable_ipv6, cf_bootstrap_dns = default_bootstrap_dns,
      cf_blocklists = default_blocklists, cf_allowlist = [],
      cf_cache = cache_config_default, cf_updates = update_config_default,
      cf_logging = logging_config_default, cf_local_records = [],
      cf_stats = stats_config_default\<rparr>"

section \<open>Reading a document\<close>

text \<open>
  What the TOML parser yields is a document in which every field may be missing; \<open>serde\<close> fills
  the missing ones from the \<open>default\<close> attributes, those of a missing table from the table's
  \<open>Default\<close>.
\<close>

record raw_cache =
  rc_enable :: "bool option"
  rc_capacity :: "u64 option"
  rc_grace_period_sec :: "u64 option"
  rc_min_ttl :: "u32 option"

record raw_updates =
  ru_interval_hours :: "u64 option"
  ru_concurrent_downloads :: "u64 option"

record raw_logging =
  rl_enable :: "bool option"
  rl_log_blocked :: "bool option"
  rl_log_all_queries :: "bool option"
  rl_format :: "string option"
  rl_target :: "string option"
  rl_level :: "string option"
  rl_file_path :: "string option"
  rl_syslog_addr :: "string option"
  rl_query_log_sinks :: "string list option"
  rl_sqlite_path :: "string option"
  rl_sqlite_retention_hours :: "u64 option"

record raw_stats =
  rt_enable :: "bool option"
  rt_log_interval_seconds :: "u64 option"

record raw_config =
  rf_host :: "string option"
  rf_port :: "u16 option"
  rf_upstream_servers :: "string list option"
  rf_resolution_policy :: "string option"
  rf_upstream_timeout_ms :: "u64 option"
  rf_disable_ipv6 :: "bool option"
  rf_bootstrap_dns :: "string list option"
  rf_blocklists :: "(string \<times> string) list option"
  rf_allowlist :: "string list option"
  rf_cache :: "raw_cache option"
  rf_updates :: "raw_updates option"
  rf_logging :: "raw_logging option"
  rf_local_records :: "(string \<times> ip) list option"
  rf_stats :: "raw_stats option"

definition or_default :: "'a \<Rightarrow> 'a option \<Rightarrow> 'a" where
  "or_default d x = (case x of None \<Rightarrow> d | Some v \<Rightarrow> v)"

lemma or_default_simps [simp]: "or_default d None = d" "or_default d (Some v) = v"
  by (simp_all add: or_default_def)

definition de_cache :: "raw_cache \<Rightarrow> cache_config" where
  "de_cache r =
     \<lparr>cc_enable = or_default default_cache_enable (rc_enable r),
      cc_capacity = or_default default_cache_capacity (rc_capacity r),
      cc_grace_period_sec = or_default default_grace_period (rc_grace_period_sec r),
      cc_min_ttl = or_default default_min_ttl (rc_min_ttl r)\<rparr>"

definition de_updates :: "raw_updates \<Rightarrow> update_config" where
  "de_updates r =
     \<lparr>uc_interval_hours = or_default default_update_interval (ru_interval_hours r),
      uc_concurrent_downloads =
        or_default default_concurrent_downloads (ru_concurrent_downloads r)\<rparr>"

definition de_logging :: "raw_logging \<Rightarrow> logging_config" where
  "de_logging r =
     \<lparr>lg_enable = or_default default_log_enable (rl_enable r),
      lg_log_blocked = or_default default_log_blocked (rl_log_blocked r),
      lg_log_all_queries = or_default default_log_all_queries (rl_log_all_queries r),
      lg_format = or_default default_log_format (rl_format r),
      lg_target = or_default default_log_target (rl_target r),
      lg_level = or_default default_log_level (rl_level r),
      lg_file_path = rl_file_path r,
      lg_syslog_addr = rl_syslog_addr r,
      lg_query_log_sinks = or_default default_query_log_sinks (rl_query_log_sinks r),
      lg_sqlite_path = or_default default_sqlite_path (rl_sqlite_path r),
      lg_sqlite_retention_hours =
        or_default default_sqlite_retention_hours (rl_sqlite_retention_hours r)\<rparr>"

definition de_stats :: "raw_stats \<Rightarrow> stats_config" where
  "de_stats r =
     \<lparr>sc_enable = or_default default_stats_enable (rt_enable r),
      sc_log_interval_seconds = or_default default_log_interval (rt_log_interval_seconds r)\<rparr>"

definition de_config :: "raw_config \<Rightarrow> config" where
  "de_config r =
     \<lparr>cf_host = or_default default_host (rf_host r),
      cf_port = or_default default_port (rf_port r),
      cf_upstream_servers = or_default default_upstream_servers (rf_upstream_servers r),
      cf_resolution_policy = or_default default_resolution_policy (rf_resolution_policy r),
      cf_upstream_timeout_ms = or_default default_upstream_timeout_ms (rf_upstream_timeout_ms r),
      cf_disable_ipv6 = or_default default_disable_ipv6 (rf_disable_ipv6 r),
      cf_bootstrap_dns = or_default default_bootstrap_dns (rf_bootstrap_dns r),
      cf_blocklists = or_default default_blocklists (rf_blocklists r),
      cf_allowlist = or_default [] (rf_allowlist r),
      cf_cache = or_default cache_config_default (map_option de_cache (rf_cache r)),
      cf_updates = or_default update_config_default (map_option de_updates (rf_updates r)),
      cf_logging = or_default logging_config_default (map_option de_logging (rf_logging r)),
      cf_local_records = or_default [] (rf_local_records r),
      cf_stats = or_default stats_config_default (map_option de_stats (rf_stats r))\<rparr>"

text \<open>The document \<open>Serialize\<close> writes: every field present, optional ones when set.\<close>

definition ser_cache :: "cache_config \<Rightarrow> raw_cache" where
  "ser_cache c =
     \<lparr>rc_enable = Some (cc_enable c), rc_capacity = Some (cc_capacity c),
      rc_grace_period_sec = Some (cc_grace_period_sec c), rc_min_ttl = Some (cc_min_ttl c)\<rparr>"

definition ser_updates :: "update_config \<Rightarrow> raw_updates" where
  "ser_updates u =
     \<lparr>ru_interval_hours = Some (uc_interval_hours u),
      ru_concurrent_downloads = Some (uc_concurrent_downloads u)\<rparr>"

definition ser_logging :: "logging_config \<Rightarrow> raw_logging" where
  "ser_logging l =
     \<lparr>rl_enable = Some (lg_enable l), rl_log_blocked = Some (lg_log_blocked l),
      rl_log_all_queries = Some (lg_log_all_queries l), rl_format = Some (lg_format l),
      rl_target = Some (lg_target l), rl_level = Some (lg_level l),
      rl_file_path = lg_file_path l, rl_syslog_addr = lg_syslog_addr l,
      rl_query_log_sinks = Some (lg_query_log_sinks l),
      rl_sqlite_path = Some (lg_sqlite_path l),
      rl_sqlite_retention_hours = Some (lg_sqlite_retention_hours l)\<rparr>"

definition ser_stats :: "stats_config \<Rightarrow> raw_stats" where
  "ser_stats s =
     \<lparr>rt_enable = Some (sc_enable s), rt_log_interval_seconds = Some (sc_log_interval_seconds s)\<rparr>"

definition ser_config :: "config \<Rightarrow> raw_config" where
  "ser_config c =
     \<lparr>rf_host = Some (cf_host c), rf_port = Some (cf_port c),
      rf_upstream_servers = Some (cf_upstream_servers c),
      rf_resolution_policy = Some (cf_resolution_policy c),
      rf_upstream_timeout_ms = Some (cf_upstream_timeout_ms c),
      rf_disable_ipv6 = Some (cf_disable_ipv6 c), rf_bootstrap_dns = Some (cf_bootstrap_dns c),
      rf_blocklists = Some (cf_blocklists c), rf_allowlist = Some (cf_allowlist c),
      rf_cache = Some (ser_cache (cf_cache c)), rf_updates = Some (ser_updates (cf_updates c)),
      rf_logging = Some (ser_logging (cf_logging c)),
      rf_local_records = Some (cf_local_records c), rf_stats = Some (ser_stats (cf_stats c))\<rparr>"

definition raw_empty :: raw_config where
  "raw_empty =
     \<lparr>rf_host = None, rf_port = None, rf_upstream_servers = None, rf_resolution_policy = None,
      rf_upstream_timeout_ms = None, rf_disable_ipv6 = None, rf_bootstrap_dns = None,
      rf_blocklists = None, rf_allowlist = None, rf_cache = None, rf_updates = None,
      rf_logging = None, rf_local_records = None, rf_stats = None\<rparr>"

section \<open>Loading and the sorted blocklists\<close>

text \<open>
  \<open>Config::load\<close>: the file read and the TOML parser are parameters, with their error texts; an
  error carries the context the code adds.
\<close>

definition load :: "(string \<Rightarrow> string + string) \<Rightarrow> (string \<Rightarrow> string + raw_config) \<Rightarrow> string
    \<Rightarrow> (string \<times> string) + config" where
  "load read_file parse_toml path =
     (case read_file path of
        Inl e \<Rightarrow> Inl (''Failed to read config file'', e)
      | Inr contents \<Rightarrow>
          (case parse_toml contents of
             Inl e \<Rightarrow> Inl (''Failed to parse config TOML'', e)
           | Inr raw \<Rightarrow> Inr (de_config raw)))"

definition get_blocklists_sorted :: "config \<Rightarrow> (string \<times> string) list" where
  "get_blocklists_sorted c = sort_key fst (cf_blocklists c)"

definition config_wf :: "config \<Rightarrow> bool" where
  "config_wf c \<longleftrightarrow> distinct (map fst (cf_blocklists c)) \<and> distinct (map fst (cf_local_records c))"

lemmas default_defs =
  default_min_ttl_def default_host_def default_port_def default_resolution_policy_def
  default_upstream_timeout_ms_def default_cache_enable_def default_cache_capacity_def
  default_grace_period_def default_update_interval_def default_concurrent_downloads_def
  default_log_enable_def default_log_blocked_def default_log_all_queries_def
  default_log_format_def default_log_target_def default_log_level_def
  default_query_log_sinks_def default_sqlite_path_def default_sqlite_retention_hours_def
  default_stats_enable_def default_log_interval_def default_disable_ipv6_def
  default_blocklists_def default_upstream_servers_def default_bootstrap_dns_def

lemmas config_defaults =
  config_default_def cache_config_default_def update_config_default_def
  logging_config_default_def stats_config_default_def

lemma config_default_wf: "config_wf config_default"
  by (simp add: config_wf_def config_defaults default_blocklists_def)

lemma de_ser_parts [simp]:
  "de_cache (ser_cache c) = c" "de_updates (ser_updates u) = u"
  "de_logging (ser_logging l) = l" "de_stats (ser_stats s) = s"
  by (simp_all add: de_cache_def ser_cache_def de_updates_def ser_updates_def
      de_logging_def ser_logging_def de_stats_def ser_stats_def)

lemma blocklists_sorted_mset: "mset (get_blocklists_sorted c) = mset (cf_blocklists c)"
  by (simp add: get_blocklists_sorted_def)

lemma blocklists_sorted_distinct:
  "config_wf c \<Longrightarrow> distinct (map fst (get_blocklists_sorted c))"
  unfolding config_wf_def using blocklists_sorted_mset [of c]
  by (metis mset_eq_imp_distinct_iff mset_map)

lemma blocklists_sorted_strict:
  "config_wf c \<Longrightarrow> sorted_wrt (<) (map fst (get_blocklists_sorted c))"
  using blocklists_sorted_distinct [of c]
  by (simp add: strict_sorted_iff get_blocklists_sorted_def)

lemma blocklists_sorted_length [simp]:
  "length (get_blocklists_sorted c) = length (cf_blocklists c)"
  by (simp add: get_blocklists_sorted_def)

lemma de_ser_config: "de_config (ser_config c) = c"
  by (simp add: de_config_def ser_config_def)

section \<open>Properties\<close>

text \<open>
  C27. The list of blocklists, whose positions are the source ids, holds exactly the configured
  entries, strictly ascending by name, whatever order the hash map of the configuration is
  iterated in: two configurations with the same entries give the same list.
\<close>

theorem blocklists_sorted_deterministic:
  assumes "config_wf c" "mset (cf_blocklists c') = mset (cf_blocklists c)"
  shows "get_blocklists_sorted c' = get_blocklists_sorted c
    \<and> sorted_wrt (<) (map fst (get_blocklists_sorted c))
    \<and> mset (get_blocklists_sorted c) = mset (cf_blocklists c)"
proof -
  let ?xs = "get_blocklists_sorted c'" and ?ys = "get_blocklists_sorted c"
  have same: "mset ?xs = mset ?ys"
    using assms(2) by (simp add: blocklists_sorted_mset)
  have dist: "distinct (map fst ?ys)"
    using assms(1) by (rule blocklists_sorted_distinct)
  then have "distinct (map fst ?xs)"
    using same by (metis mset_eq_imp_distinct_iff mset_map)
  moreover have "set ?xs = set ?ys"
    using same by (rule mset_eq_setD)
  moreover have "inj_on fst (set ?xs \<union> set ?ys)"
    using dist \<open>set ?xs = set ?ys\<close> by (simp add: distinct_map)
  moreover have "sorted (map fst ?xs)" "sorted (map fst ?ys)"
    by (simp_all add: get_blocklists_sorted_def)
  ultimately have "?xs = ?ys"
    using dist by (intro map_sorted_distinct_set_unique [of fst]) simp_all
  with blocklists_sorted_strict [OF assms(1)] show ?thesis
    by (simp add: blocklists_sorted_mset)
qed

theorem blocklists_sorted_deterministic_witness:
  "let c = config_default\<lparr>cf_blocklists := [(''b'', ''url2''), (''a'', ''url1''), (''c'', ''url3'')]\<rparr>;
       c' = config_default\<lparr>cf_blocklists := [(''c'', ''url3''), (''b'', ''url2''), (''a'', ''url1'')]\<rparr>
   in get_blocklists_sorted c' = get_blocklists_sorted c
      \<and> map fst (get_blocklists_sorted c) = [''a'', ''b'', ''c'']"
proof -
  let ?c = "config_default\<lparr>cf_blocklists := [(''b'', ''url2''), (''a'', ''url1''), (''c'', ''url3'')]\<rparr>"
  let ?c' = "config_default\<lparr>cf_blocklists := [(''c'', ''url3''), (''b'', ''url2''), (''a'', ''url1'')]\<rparr>"
  have "config_wf ?c" "mset (cf_blocklists ?c') = mset (cf_blocklists ?c)"
    by (simp_all add: config_wf_def config_defaults)
  from blocklists_sorted_deterministic [OF this]
  have "get_blocklists_sorted ?c' = get_blocklists_sorted ?c" by blast
  then show ?thesis by (simp add: get_blocklists_sorted_def)
qed

text \<open>
  C26. Reading back a configuration as it is serialised gives the configuration; a document with no
  field gives \<open>Config::default()\<close>; and a table that is missing means the same as a table that is
  there with no field set.
\<close>

theorem config_roundtrip:
  "de_config (ser_config c) = c
   \<and> de_config raw_empty = config_default
   \<and> de_config (raw\<lparr>rf_cache := None\<rparr>) =
       de_config (raw\<lparr>rf_cache := Some \<lparr>rc_enable = None, rc_capacity = None,
                     rc_grace_period_sec = None, rc_min_ttl = None\<rparr>\<rparr>)
   \<and> de_config (raw\<lparr>rf_updates := None\<rparr>) =
       de_config (raw\<lparr>rf_updates := Some \<lparr>ru_interval_hours = None,
                     ru_concurrent_downloads = None\<rparr>\<rparr>)
   \<and> de_config (raw\<lparr>rf_stats := None\<rparr>) =
       de_config (raw\<lparr>rf_stats := Some \<lparr>rt_enable = None, rt_log_interval_seconds = None\<rparr>\<rparr>)
   \<and> de_config (raw\<lparr>rf_logging := None\<rparr>) =
       de_config (raw\<lparr>rf_logging := Some \<lparr>rl_enable = None, rl_log_blocked = None,
                     rl_log_all_queries = None, rl_format = None, rl_target = None,
                     rl_level = None, rl_file_path = None, rl_syslog_addr = None,
                     rl_query_log_sinks = None, rl_sqlite_path = None,
                     rl_sqlite_retention_hours = None\<rparr>\<rparr>)"
proof -
  have "de_config (ser_config c) = c" by (rule de_ser_config)
  moreover have "de_config raw_empty = config_default"
    by (simp add: de_config_def raw_empty_def config_default_def)
  ultimately show ?thesis
    by (simp add: de_config_def config_defaults de_cache_def de_updates_def de_stats_def
        de_logging_def)
qed

end
