(* ===== verification/Tokio_Timer.thy ===== *)
theory Tokio_Timer
  imports Rust_Prelude
begin

text \<open>
  The periodic timer of the runtime, \<open>tokio::time::interval\<close>, as the program uses it: a zero period
  panics; the first tick is due at once; a tick that was waited for moves the next one a period
  further, from when it was due (no drift); a reset moves it to a period from now.
\<close>

record timer =
  tm_period :: duration
  tm_next :: instant

definition interval_new :: "instant \<Rightarrow> duration \<Rightarrow> timer outcome" where
  "interval_new now period =
     (if period = 0 then Inl ZeroPeriod else Inr \<lparr>tm_period = period, tm_next = now\<rparr>)"

definition tick_due :: "instant \<Rightarrow> timer \<Rightarrow> bool" where
  "tick_due now t \<longleftrightarrow> tm_next t \<le> now"

definition tick :: "timer \<Rightarrow> timer" where
  "tick t = t\<lparr>tm_next := tm_next t + tm_period t\<rparr>"

definition timer_reset :: "instant \<Rightarrow> timer \<Rightarrow> timer" where
  "timer_reset now t = t\<lparr>tm_next := now + tm_period t\<rparr>"

lemma tick_fields [simp]:
  "tm_next (tick t) = tm_next t + tm_period t" "tm_period (tick t) = tm_period t"
  "tm_next (timer_reset now t) = now + tm_period t" "tm_period (timer_reset now t) = tm_period t"
  by (simp_all add: tick_def timer_reset_def)

lemma ticks_next: "tm_next ((tick ^^ k) t) = tm_next t + k * tm_period t"
proof (induction k)
  case (Suc k)
  have "tm_period ((tick ^^ k) t) = tm_period t" by (induction k) simp_all
  with Suc show ?case by simp
qed simp

end
