(* ===== verification/Stats_Model.thy ===== *)
theory Stats_Model
  imports Dns_Types Tokio_Timer
begin

text \<open>
  \<open>src/stats.rs\<close>: the collector's counters, the operations the handlers call, the periodic dump and
  the snapshot for the API. Atomic additions wrap around; each operation is one atomic step per
  counter it touches. The formatting of floating-point ratios is the parameter \<open>ratio\<close> (a scale,
  a numerator and a denominator), the iteration order of a concurrent map the parameter \<open>iter\<close>.
\<close>

section \<open>State\<close>

record top_item =
  ti_name :: string
  ti_count :: u64

record stats =
  st_total_queries :: u64
  st_blocked_queries :: u64
  st_cache_hits :: u64
  st_client_queries :: "ip counters"
  st_client_blocks :: "ip counters"
  st_domain_queries :: "string counters"
  st_domain_blocks :: "string counters"
  st_blocked_by_source :: "u64 list"
  st_upstream_total_ms :: "u64 list"
  st_upstream_count :: "u64 list"
  st_upstream_names :: "string list"
  st_blocklist_names :: "string list"
  st_started_at :: instant
  st_log_interval :: duration

definition stats_new :: "u64 \<Rightarrow> string list \<Rightarrow> string list \<Rightarrow> instant \<Rightarrow> stats" where
  "stats_new log_interval_sec upstream_names blocklist_names now =
     \<lparr>st_total_queries = 0, st_blocked_queries = 0, st_cache_hits = 0,
      st_client_queries = [], st_client_blocks = [], st_domain_queries = [], st_domain_blocks = [],
      st_blocked_by_source = replicate 256 0,
      st_upstream_total_ms = replicate 16 0, st_upstream_count = replicate 16 0,
      st_upstream_names = upstream_names, st_blocklist_names = blocklist_names,
      st_started_at = now, st_log_interval = duration_from_secs log_interval_sec\<rparr>"

section \<open>Operations\<close>

definition inc_queries :: "stats \<Rightarrow> stats" where
  "inc_queries st = st\<lparr>st_total_queries := st_total_queries st + 1\<rparr>"

definition inc_blocked :: "stats \<Rightarrow> stats" where
  "inc_blocked st = st\<lparr>st_blocked_queries := st_blocked_queries st + 1\<rparr>"

definition inc_cache_hit :: "stats \<Rightarrow> stats" where
  "inc_cache_hit st = st\<lparr>st_cache_hits := st_cache_hits st + 1\<rparr>"

definition inc_blocked_by_source :: "u8 \<Rightarrow> stats \<Rightarrow> stats" where
  "inc_blocked_by_source source_id st =
     (let st = inc_blocked st in
      if unat source_id < length (st_blocked_by_source st)
      then st\<lparr>st_blocked_by_source := fetch_add_at (unat source_id) 1 (st_blocked_by_source st)\<rparr>
      else st)"

definition inc_client_query :: "ip \<Rightarrow> stats \<Rightarrow> stats" where
  "inc_client_query client st = st\<lparr>st_client_queries := entry_inc client (st_client_queries st)\<rparr>"

definition inc_client_block :: "ip \<Rightarrow> stats \<Rightarrow> stats" where
  "inc_client_block client st = st\<lparr>st_client_blocks := entry_inc client (st_client_blocks st)\<rparr>"

definition inc_domain_query :: "string \<Rightarrow> stats \<Rightarrow> stats" where
  "inc_domain_query domain st = st\<lparr>st_domain_queries := entry_inc domain (st_domain_queries st)\<rparr>"

definition inc_domain_block :: "string \<Rightarrow> stats \<Rightarrow> stats" where
  "inc_domain_block domain st = st\<lparr>st_domain_blocks := entry_inc domain (st_domain_blocks st)\<rparr>"

definition record_upstream_latency :: "nat \<Rightarrow> u64 \<Rightarrow> stats \<Rightarrow> stats" where
  "record_upstream_latency upstream_idx ms st =
     (if upstream_idx < 16
      then st\<lparr>st_upstream_total_ms := fetch_add_at upstream_idx ms (st_upstream_total_ms st),
              st_upstream_count := fetch_add_at upstream_idx 1 (st_upstream_count st)\<rparr>
      else st)"

lemmas stats_defs =
  inc_queries_def inc_blocked_def inc_cache_hit_def inc_blocked_by_source_def
  inc_client_query_def inc_client_block_def inc_domain_query_def inc_domain_block_def
  record_upstream_latency_def

section \<open>The dump\<close>

text \<open>\<open>names.get(i).map(|s| s.as_str()).unwrap_or("Unknown")\<close>\<close>

definition name_or_unknown :: "string list \<Rightarrow> nat \<Rightarrow> string" where
  "name_or_unknown names i = (case opt_index names i of Some n \<Rightarrow> n | None \<Rightarrow> ''Unknown'')"

definition dump_upstream :: "(nat \<Rightarrow> u64 \<Rightarrow> u64 \<Rightarrow> string) \<Rightarrow> stats \<Rightarrow> nat \<Rightarrow> string" where
  "dump_upstream ratio st i =
     (let count = st_upstream_count st ! i in
      if count > 0
      then ''['' @ name_or_unknown (st_upstream_names st) i @ '': ''
           @ ratio 1 (st_upstream_total_ms st ! i) count @ ''ms] ''
      else [])"

definition dump_source :: "(nat \<Rightarrow> u64 \<Rightarrow> u64 \<Rightarrow> string) \<Rightarrow> stats \<Rightarrow> u64 \<Rightarrow> nat \<Rightarrow> string" where
  "dump_source ratio st blocked i =
     (let count = st_blocked_by_source st ! i in
      if count > 0
      then ''['' @ name_or_unknown (st_blocklist_names st) i @ '': '' @ show_u64 count @ '' (''
           @ ratio 100 count blocked @ ''%)] ''
      else [])"

definition dump_stats :: "(nat \<Rightarrow> u64 \<Rightarrow> u64 \<Rightarrow> string) \<Rightarrow> stats \<Rightarrow> string" where
  "dump_stats ratio st =
     (let total = st_total_queries st; blocked = st_blocked_queries st; hits = st_cache_hits st;
          upstream_stats = concat (map (dump_upstream ratio st) [0..<16]);
          block_stats = (if blocked > 0
             then '' BlockStats: '' @ concat (map (dump_source ratio st blocked) [0..<256])
             else [])
      in ''STATS DUMP: Total: '' @ show_u64 total @ '', Blocked: '' @ show_u64 blocked @ '' (''
         @ (if total > 0 then ratio 100 blocked total else ''0.0'') @ ''%), CacheHits: ''
         @ show_u64 hits @ '' ('' @ (if total > 0 then ratio 100 hits total else ''0.0'')
         @ ''%), Upstreams: '' @ upstream_stats @ block_stats)"

text \<open>
  The background task. Each turn of its loop is given by how late it wakes up after its tick is due
  and the counters it then finds; it yields the line it logs, with its time.
\<close>

fun logger_loop :: "(nat \<Rightarrow> u64 \<Rightarrow> u64 \<Rightarrow> string) \<Rightarrow> timer \<Rightarrow> (duration \<times> stats) list \<Rightarrow> (instant \<times> string) list" where
  "logger_loop ratio interval [] = []"
| "logger_loop ratio interval ((late, st) # wakes) =
     (tm_next interval + late, dump_stats ratio st) # logger_loop ratio (tick interval) wakes"

definition run_logger :: "(nat \<Rightarrow> u64 \<Rightarrow> u64 \<Rightarrow> string) \<Rightarrow> instant \<Rightarrow> stats \<Rightarrow> (duration \<times> stats) list
    \<Rightarrow> (instant \<times> string) list outcome" where
  "run_logger ratio now st wakes =
     res_bind (interval_new now (st_log_interval st)) (\<lambda>interval. Inr (logger_loop ratio interval wakes))"

section \<open>The snapshot\<close>

record stats_snapshot =
  sn_total_queries :: u64
  sn_blocked_queries :: u64
  sn_cache_hits :: u64
  sn_top_clients :: "top_item list"
  sn_top_blocked_clients :: "top_item list"
  sn_top_domains :: "top_item list"
  sn_top_blocked_domains :: "top_item list"
  sn_started_at :: u64
  sn_updated_at :: u64

definition top_items :: "('k \<Rightarrow> string) \<Rightarrow> 'k counters \<Rightarrow> top_item list" where
  "top_items to_string entries = map (\<lambda>(k, c). \<lparr>ti_name = to_string k, ti_count = c\<rparr>) entries"

definition get_top_k :: "('k \<Rightarrow> string) \<Rightarrow> ('k counters \<Rightarrow> 'k counters) \<Rightarrow> 'k counters \<Rightarrow> nat \<Rightarrow> top_item list" where
  "get_top_k to_string iter m k =
     (let items = top_items to_string (iter m);
          items = sort_by_desc ti_count items
      in take k items)"

text \<open>The wall clock is read twice, at \<open>wall1\<close> and \<open>wall2\<close>, the monotonic one at \<open>now\<close>.\<close>

definition get_snapshot :: "(ip \<Rightarrow> string) \<Rightarrow> (ip counters \<Rightarrow> ip counters)
    \<Rightarrow> (string counters \<Rightarrow> string counters) \<Rightarrow> systemtime \<Rightarrow> instant \<Rightarrow> systemtime
    \<Rightarrow> stats \<Rightarrow> stats_snapshot outcome" where
  "get_snapshot show_ip over_clients over_domains wall1 now wall2 st =
     res_bind (unix_secs wall1) (\<lambda>s1.
     res_bind (unix_secs wall2) (\<lambda>s2.
       Inr \<lparr>sn_total_queries = st_total_queries st,
            sn_blocked_queries = st_blocked_queries st,
            sn_cache_hits = st_cache_hits st,
            sn_top_clients = get_top_k show_ip over_clients (st_client_queries st) 5,
            sn_top_blocked_clients = get_top_k show_ip over_clients (st_client_blocks st) 5,
            sn_top_domains = get_top_k (\<lambda>d. d) over_domains (st_domain_queries st) 5,
            sn_top_blocked_domains = get_top_k (\<lambda>d. d) over_domains (st_domain_blocks st) 5,
            sn_started_at = s1 - duration_as_secs (now - st_started_at st),
            sn_updated_at = s2\<rparr>))"

section \<open>Well-formed collectors\<close>

definition stats_wf :: "stats \<Rightarrow> bool" where
  "stats_wf st \<longleftrightarrow>
     length (st_blocked_by_source st) = 256 \<and>
     length (st_upstream_total_ms st) = 16 \<and> length (st_upstream_count st) = 16 \<and>
     distinct (map fst (st_client_queries st)) \<and> distinct (map fst (st_client_blocks st)) \<and>
     distinct (map fst (st_domain_queries st)) \<and> distinct (map fst (st_domain_blocks st)) \<and>
     st_blocked_queries st = sum_list (st_blocked_by_source st)"

lemma stats_new_wf: "stats_wf (stats_new l us bs now)"
  by (simp add: stats_wf_def stats_new_def sum_list_replicate)

lemma u8_below: "unat (i :: u8) < 256"
  using unsigned_less [of i, where 'a = nat] by simp

lemma stats_wf_simple:
  "stats_wf st \<Longrightarrow> stats_wf (inc_queries st)"
  "stats_wf st \<Longrightarrow> stats_wf (inc_cache_hit st)"
  "stats_wf st \<Longrightarrow> stats_wf (inc_client_query c st)"
  "stats_wf st \<Longrightarrow> stats_wf (inc_client_block c st)"
  "stats_wf st \<Longrightarrow> stats_wf (inc_domain_query d st)"
  "stats_wf st \<Longrightarrow> stats_wf (inc_domain_block d st)"
  "stats_wf st \<Longrightarrow> stats_wf (record_upstream_latency i ms st)"
  by (simp_all add: stats_wf_def stats_defs)

lemma stats_wf_blocked_by_source: "stats_wf st \<Longrightarrow> stats_wf (inc_blocked_by_source i st)"
  using u8_below [of i] by (simp add: stats_wf_def stats_defs Let_def)

lemmas stats_wf_intros = stats_wf_simple stats_wf_blocked_by_source

text \<open>What recording a latency leaves alone: everything but the two latency arrays.\<close>

definition same_counters :: "stats \<Rightarrow> stats \<Rightarrow> bool" where
  "same_counters st st' \<longleftrightarrow>
     st' = st\<lparr>st_upstream_total_ms := st_upstream_total_ms st',
             st_upstream_count := st_upstream_count st'\<rparr>"

lemma same_counters_refl [simp]: "same_counters st st"
  by (simp add: same_counters_def)

lemma same_counters_trans: "same_counters a b \<Longrightarrow> same_counters b c \<Longrightarrow> same_counters a c"
  unfolding same_counters_def by (cases a; cases b; cases c) simp

lemma same_counters_latency [simp]: "same_counters st (record_upstream_latency i ms st)"
  by (simp add: same_counters_def record_upstream_latency_def)

lemma same_counters_fields:
  "same_counters st st' \<Longrightarrow>
     st_total_queries st' = st_total_queries st \<and> st_blocked_queries st' = st_blocked_queries st
     \<and> st_cache_hits st' = st_cache_hits st \<and> st_client_queries st' = st_client_queries st
     \<and> st_client_blocks st' = st_client_blocks st \<and> st_domain_queries st' = st_domain_queries st
     \<and> st_domain_blocks st' = st_domain_blocks st
     \<and> st_blocked_by_source st' = st_blocked_by_source st
     \<and> st_upstream_names st' = st_upstream_names st"
  unfolding same_counters_def by (cases st; cases st') simp

text \<open>
  How the counters of a collector belong together between requests: the totals over clients and
  domains are the plain counters; a query is counted as blocked or as a hit of the cache at most.
\<close>

definition counters_agree :: "stats \<Rightarrow> bool" where
  "counters_agree st \<longleftrightarrow>
     counters_total (st_client_queries st) = st_total_queries st
     \<and> counters_total (st_client_blocks st) = st_blocked_queries st
     \<and> counters_total (st_domain_blocks st) = st_blocked_queries st"

definition hits_and_blocks :: "stats \<Rightarrow> nat" where
  "hits_and_blocks st = unat (st_blocked_queries st) + unat (st_cache_hits st)"

lemma unat_inc_le: "unat (x + 1 :: u64) \<le> unat x + 1"
  by (simp add: unat_word_ariths)

lemma counters_agree_new: "counters_agree (stats_new l us bs now)" "hits_and_blocks (stats_new l us bs now) = 0"
  by (simp_all add: counters_agree_def hits_and_blocks_def stats_new_def counters_total_def)

lemma same_counters_agree:
  "same_counters st st' \<Longrightarrow> counters_agree st' = counters_agree st"
  "same_counters st st' \<Longrightarrow> hits_and_blocks st' = hits_and_blocks st"
  by (simp_all add: counters_agree_def hits_and_blocks_def same_counters_fields)

section \<open>Sequences of operations\<close>

text \<open>
  The calls the concurrent tasks make, and their effect in the order they take place: a counter
  holds the number of the calls that count in it, modulo \<open>2^64\<close>.
\<close>

datatype stats_op =
    IncQueries
  | IncCacheHit
  | IncBlockedBySource u8
  | IncClientQuery ip
  | IncClientBlock ip
  | IncDomainQuery string
  | IncDomainBlock string
  | RecordLatency nat u64

fun stats_step :: "stats_op \<Rightarrow> stats \<Rightarrow> stats" where
  "stats_step IncQueries st = inc_queries st"
| "stats_step IncCacheHit st = inc_cache_hit st"
| "stats_step (IncBlockedBySource i) st = inc_blocked_by_source i st"
| "stats_step (IncClientQuery c) st = inc_client_query c st"
| "stats_step (IncClientBlock c) st = inc_client_block c st"
| "stats_step (IncDomainQuery d) st = inc_domain_query d st"
| "stats_step (IncDomainBlock d) st = inc_domain_block d st"
| "stats_step (RecordLatency i ms) st = record_upstream_latency i ms st"

definition stats_run :: "stats_op list \<Rightarrow> stats \<Rightarrow> stats" where
  "stats_run ops st = fold stats_step ops st"

definition latencies_of :: "nat \<Rightarrow> stats_op list \<Rightarrow> u64 list" where
  "latencies_of i ops = concat (map (\<lambda>op. case op of RecordLatency j ms \<Rightarrow> if j = i then [ms] else [] | _ \<Rightarrow> []) ops)"

definition count_of :: "stats_op \<Rightarrow> stats_op list \<Rightarrow> u64" where
  "count_of op ops = of_nat (count_list ops op)"

definition count_blocked :: "stats_op list \<Rightarrow> u64" where
  "count_blocked ops = of_nat (length (filter (\<lambda>op. case op of IncBlockedBySource _ \<Rightarrow> True | _ \<Rightarrow> False) ops))"

lemma stats_step_wf: "stats_wf st \<Longrightarrow> stats_wf (stats_step op st)"
  by (cases op) (simp_all add: stats_wf_intros)

lemma stats_run_wf: "stats_wf st \<Longrightarrow> stats_wf (stats_run ops st)"
  unfolding stats_run_def by (induction ops arbitrary: st) (simp_all add: stats_step_wf)

lemma stats_run_Cons [simp]: "stats_run (op # ops) st = stats_run ops (stats_step op st)"
  by (simp add: stats_run_def)

lemma stats_run_Nil [simp]: "stats_run [] st = st"
  by (simp add: stats_run_def)

lemma count_of_simps [simp]:
  "count_of op [] = 0"
  "count_of op (x # ops) = (if x = op then 1 + count_of op ops else count_of op ops)"
  by (simp_all add: count_of_def)

lemma count_blocked_simps [simp]:
  "count_blocked [] = 0"
  "count_blocked (op # ops) = (case op of IncBlockedBySource _ \<Rightarrow> 1 | _ \<Rightarrow> 0) + count_blocked ops"
  by (simp_all add: count_blocked_def split: stats_op.splits)

lemma latencies_of_simps [simp]:
  "latencies_of i [] = []"
  "latencies_of i (op # ops) =
     (case op of RecordLatency j ms \<Rightarrow> if j = i then [ms] else [] | _ \<Rightarrow> []) @ latencies_of i ops"
  by (simp_all add: latencies_of_def)

lemma run_total: "st_total_queries (stats_run ops st) = st_total_queries st + count_of IncQueries ops"
proof (induction ops arbitrary: st)
  case (Cons op ops)
  then show ?case by (cases op) (simp_all add: stats_defs Let_def)
qed simp

lemma run_cache_hits: "st_cache_hits (stats_run ops st) = st_cache_hits st + count_of IncCacheHit ops"
proof (induction ops arbitrary: st)
  case (Cons op ops)
  then show ?case by (cases op) (simp_all add: stats_defs Let_def)
qed simp

lemma run_blocked: "st_blocked_queries (stats_run ops st) = st_blocked_queries st + count_blocked ops"
proof (induction ops arbitrary: st)
  case (Cons op ops)
  then show ?case by (cases op) (simp_all add: stats_defs Let_def)
qed simp

lemma run_by_source:
  "length (st_blocked_by_source st) = 256 \<Longrightarrow>
   st_blocked_by_source (stats_run ops st) ! unat i =
     st_blocked_by_source st ! unat i + count_of (IncBlockedBySource i) ops"
proof (induction ops arbitrary: st)
  case (Cons op ops)
  have "length (st_blocked_by_source (stats_step op st)) = 256"
    using Cons.prems by (cases op) (simp_all add: stats_defs Let_def)
  note IH = Cons.IH [OF this]
  have "st_blocked_by_source (stats_step op st) ! unat i =
      st_blocked_by_source st ! unat i + (if op = IncBlockedBySource i then 1 else 0)"
    using Cons.prems u8_below
    by (cases op) (auto simp: stats_defs Let_def nth_fetch_add_at word_unat_eq_iff)
  with IH show ?case by simp
qed simp

lemma run_client_queries:
  "counter_of (st_client_queries (stats_run ops st)) c =
     counter_of (st_client_queries st) c + count_of (IncClientQuery c) ops"
proof (induction ops arbitrary: st)
  case (Cons op ops)
  then show ?case by (cases op) (simp_all add: stats_defs Let_def counter_of_entry_inc)
qed simp

lemma run_client_blocks:
  "counter_of (st_client_blocks (stats_run ops st)) c =
     counter_of (st_client_blocks st) c + count_of (IncClientBlock c) ops"
proof (induction ops arbitrary: st)
  case (Cons op ops)
  then show ?case by (cases op) (simp_all add: stats_defs Let_def counter_of_entry_inc)
qed simp

lemma run_domain_queries:
  "counter_of (st_domain_queries (stats_run ops st)) d =
     counter_of (st_domain_queries st) d + count_of (IncDomainQuery d) ops"
proof (induction ops arbitrary: st)
  case (Cons op ops)
  then show ?case by (cases op) (simp_all add: stats_defs Let_def counter_of_entry_inc)
qed simp

lemma run_domain_blocks:
  "counter_of (st_domain_blocks (stats_run ops st)) d =
     counter_of (st_domain_blocks st) d + count_of (IncDomainBlock d) ops"
proof (induction ops arbitrary: st)
  case (Cons op ops)
  then show ?case by (cases op) (simp_all add: stats_defs Let_def counter_of_entry_inc)
qed simp

lemma run_latency:
  "length (st_upstream_total_ms st) = 16 \<Longrightarrow> length (st_upstream_count st) = 16 \<Longrightarrow> i < 16 \<Longrightarrow>
   st_upstream_total_ms (stats_run ops st) ! i = st_upstream_total_ms st ! i + sum_list (latencies_of i ops)
   \<and> st_upstream_count (stats_run ops st) ! i = st_upstream_count st ! i + of_nat (length (latencies_of i ops))"
proof (induction ops arbitrary: st)
  case (Cons op ops)
  have "length (st_upstream_total_ms (stats_step op st)) = 16"
    "length (st_upstream_count (stats_step op st)) = 16"
    using Cons.prems by (cases op; simp add: stats_defs Let_def)+
  note IH = Cons.IH [OF this Cons.prems(3)]
  show ?case
    using IH Cons.prems by (cases op) (auto simp: stats_defs Let_def nth_fetch_add_at)
qed simp

section \<open>Properties\<close>

text \<open>
  C20. Whatever the interleaving of the tasks that record, every counter of the collector is the
  number of the events it counts, modulo \<open>2^64\<close>: queries, cache hits, blocks in all and per source
  list, queries and blocks per client and per domain, and the count and sum of the latencies of
  each of the first 16 upstreams.
\<close>

theorem stats_count_events:
  "let fin = stats_run ops (stats_new l us bs now) in
    st_total_queries fin = count_of IncQueries ops
    \<and> st_cache_hits fin = count_of IncCacheHit ops
    \<and> st_blocked_queries fin = count_blocked ops
    \<and> st_blocked_by_source fin ! unat (i :: u8) = count_of (IncBlockedBySource i) ops
    \<and> counter_of (st_client_queries fin) c = count_of (IncClientQuery c) ops
    \<and> counter_of (st_client_blocks fin) c = count_of (IncClientBlock c) ops
    \<and> counter_of (st_domain_queries fin) d = count_of (IncDomainQuery d) ops
    \<and> counter_of (st_domain_blocks fin) d = count_of (IncDomainBlock d) ops
    \<and> map (\<lambda>u. (st_upstream_total_ms fin ! u, st_upstream_count fin ! u)) [0..<16]
      = map (\<lambda>u. (sum_list (latencies_of u ops), of_nat (length (latencies_of u ops)))) [0..<16]"
proof -
  let ?n = "stats_new l us bs now"
  have z: "st_total_queries ?n = 0" "st_cache_hits ?n = 0" "st_blocked_queries ?n = 0"
    "st_blocked_by_source ?n = replicate 256 0" "st_client_queries ?n = []" "st_client_blocks ?n = []"
    "st_domain_queries ?n = []" "st_domain_blocks ?n = []"
    "st_upstream_total_ms ?n = replicate 16 0" "st_upstream_count ?n = replicate 16 0"
    by (simp_all add: stats_new_def)
  have "map (\<lambda>u. (st_upstream_total_ms (stats_run ops ?n) ! u, st_upstream_count (stats_run ops ?n) ! u)) [0..<16]
      = map (\<lambda>u. (sum_list (latencies_of u ops), of_nat (length (latencies_of u ops)))) [0..<16]"
    by (rule map_cong) (simp_all add: run_latency z)
  then show ?thesis
    unfolding Let_def
    by (simp only: run_total run_cache_hits run_blocked run_client_queries run_client_blocks
        run_domain_queries run_domain_blocks)
      (simp add: z run_by_source u8_below counter_of_def)
qed

text \<open>
  The blocks per source always add up to the total of blocked queries, and the collector stays
  well-formed, under any sequence of operations.
\<close>

theorem stats_blocked_is_sum_of_sources:
  "st_blocked_queries (stats_run ops (stats_new l us bs now)) =
     sum_list (st_blocked_by_source (stats_run ops (stats_new l us bs now)))
   \<and> stats_wf (stats_run ops (stats_new l us bs now))"
  using stats_run_wf [OF stats_new_wf] by (auto simp: stats_wf_def)

text \<open>
  C21. A top list of the snapshot holds the \<open>k\<close> greatest counters: it is a part of the map of at most
  \<open>k\<close> entries in descending order, no entry left out is greater than one shown, and the counts
  shown do not depend on the order in which the concurrent map is iterated.
\<close>

theorem top_k_correct:
  assumes "is_iteration iter" "is_iteration iter'"
  shows "length (get_top_k f iter m k) = min k (length m)
    \<and> sorted_wrt (\<lambda>a b. ti_count b \<le> ti_count a) (get_top_k f iter m k)
    \<and> mset (get_top_k f iter m k) \<subseteq># mset (top_items f m)
    \<and> (\<forall>x \<in> set (get_top_k f iter m k).
         \<forall>y \<in># mset (top_items f m) - mset (get_top_k f iter m k). ti_count y \<le> ti_count x)
    \<and> map ti_count (get_top_k f iter m k) = map ti_count (get_top_k f iter' m k)"
proof -
  have top: "get_top_k f it m k = top_k ti_count k (top_items f (it m))" for it
    by (simp add: get_top_k_def top_k_def Let_def)
  have same: "mset (top_items f (it m)) = mset (top_items f m)" if "is_iteration it" for it
    using that by (simp add: top_items_def is_iteration_def)
  have len: "length (top_items f (iter m)) = length m"
    using same [OF assms(1)] by (metis length_map size_mset top_items_def)
  show ?thesis
    unfolding top same [OF assms(1), symmetric]
    using top_k_keys [OF trans [OF same [OF assms(1)] same [OF assms(2), symmetric]], of ti_count k]
      top_k_greatest [of _ ti_count k "top_items f (iter m)"]
    by (simp add: top_k_sorted top_k_subset len)
qed

theorem top_k_correct_witness:
  "map ti_count (get_top_k (\<lambda>d. d) (\<lambda>m. m) [(''a'', 1), (''b'', 3), (''c'', 2)] 2) = [3, 2]
   \<and> map ti_count (get_top_k (\<lambda>d. d) rev [(''a'', 1), (''b'', 3), (''c'', 2)] 2) = [3, 2]"
proof -
  have "is_iteration (\<lambda>m :: string counters. m)" "is_iteration (rev :: string counters \<Rightarrow> _)"
    by (simp_all add: is_iteration_def)
  note t = top_k_correct [OF this, of "\<lambda>d. d" "[(''a'', 1), (''b'', 3), (''c'', 2)]" 2]
  have "map ti_count (get_top_k (\<lambda>d. d) (\<lambda>m. m) [(''a'', 1), (''b'', 3), (''c'', 2)] 2) = [3, 2]"
    by (simp add: get_top_k_def top_items_def sort_by_desc_def word_le_nat_alt)
  with t show ?thesis by metis
qed

text \<open>
  The dumps do not drift: the first is due when the collector is created and each further one a
  whole number of intervals later, however late the earlier ones were; each shows the counters of
  its own moment. An interval of zero seconds panics the task, and nothing is ever dumped.
\<close>

lemma logger_loop_nth:
  "k < length wakes \<Longrightarrow> logger_loop ratio t wakes ! k =
     (tm_next t + k * tm_period t + fst (wakes ! k), dump_stats ratio (snd (wakes ! k)))"
proof (induction wakes arbitrary: t k)
  case (Cons w wakes)
  then show ?case by (cases w; cases k) (simp_all add: algebra_simps)
qed simp

theorem run_logger_no_drift:
  assumes "st = stats_new secs upstreams blocklists now"
  shows "case run_logger ratio now st wakes of
      Inl p \<Rightarrow> secs = 0 \<and> p = ZeroPeriod
    | Inr lines \<Rightarrow> 0 < secs \<and> length lines = length wakes
        \<and> (\<forall>k < length wakes. lines ! k =
             (now + k * duration_from_secs secs + fst (wakes ! k), dump_stats ratio (snd (wakes ! k))))"
proof -
  have len: "length (logger_loop ratio t wakes) = length wakes" for t
    by (induction ratio t wakes rule: logger_loop.induct) simp_all
  have "st_log_interval st = duration_from_secs secs" by (simp add: assms stats_new_def)
  then show ?thesis
    by (auto simp: run_logger_def interval_new_def len logger_loop_nth duration_from_secs_def
        ns_per_sec_def word_gt_0 unat_eq_0)
qed

end
