(* ===== verification/Resolver_Model.thy ===== *)
theory Resolver_Model
  imports Stats_Model
begin

text \<open>
  \<open>src/resolver/\<close>: the four upstream strategies behind the \<open>DnsResolver\<close> trait.

  What the network does during one call is the record \<open>lookup_env\<close>: the reply of each upstream to
  the lookup (an error text or the records), the clock readings, and the order in which concurrent
  lookups complete (what \<open>select_all\<close> yields).
\<close>

section \<open>Upstreams and their replies\<close>

datatype protocol = Udp | Tcp | Tls | Https | Quic | H3

text \<open>A resolver handle is what it was built from.\<close>

record upstream_resolver =
  ur_address :: "ip \<times> u16"
  ur_protocol :: protocol
  ur_tls_dns_name :: "string option"
  ur_cache_size :: nat
  ur_timeout_ms :: u64

record upstream =
  up_url :: string
  up_resolver :: upstream_resolver

record lookup_env =
  ev_lookup :: "nat \<Rightarrow> string \<Rightarrow> rtype \<Rightarrow> string + dns_record list"
  ev_start :: instant
  ev_done :: "nat \<Rightarrow> instant"
  ev_order :: "nat list"

type_synonym resolve_result = "string + (dns_record list \<times> string)"

definition handle_lookup_result :: "string + dns_record list \<Rightarrow> nat \<Rightarrow> string \<Rightarrow> instant \<Rightarrow> instant
    \<Rightarrow> stats \<Rightarrow> resolve_result \<times> stats" where
  "handle_lookup_result res idx url start now st =
     (case res of
        Inr records \<Rightarrow>
          (Inr (records, url), record_upstream_latency idx (duration_as_millis (now - start)) st)
      | Inl err_str \<Rightarrow>
          if str_contains err_str ''no records found''
          then (Inr ([], url), record_upstream_latency idx (duration_as_millis (now - start)) st)
          else (Inl err_str, st))"

section \<open>The strategies\<close>

definition resolve_single :: "upstream \<Rightarrow> lookup_env \<Rightarrow> string \<Rightarrow> rtype \<Rightarrow> stats \<Rightarrow> resolve_result \<times> stats" where
  "resolve_single up env name qt st =
     (case handle_lookup_result (ev_lookup env 0 name qt) 0 (up_url up) (ev_start env) (ev_done env 0) st of
        (Inr val, st') \<Rightarrow> (Inr val, st')
      | (Inl e, st') \<Rightarrow> (Inl (''Upstream failed for '' @ name), st'))"

fun sequential_loop :: "upstream list \<Rightarrow> nat \<Rightarrow> lookup_env \<Rightarrow> string \<Rightarrow> rtype \<Rightarrow> stats \<Rightarrow> resolve_result \<times> stats" where
  "sequential_loop [] idx env name qt st = (Inl (''All upstreams failed for '' @ name), st)"
| "sequential_loop (up # ups) idx env name qt st =
     (case handle_lookup_result (ev_lookup env idx name qt) idx (up_url up) (ev_start env) (ev_done env idx) st of
        (Inr val, st') \<Rightarrow> (Inr val, st')
      | (Inl e, st') \<Rightarrow> sequential_loop ups (idx + 1) env name qt st')"

definition resolve_sequential :: "upstream list \<Rightarrow> lookup_env \<Rightarrow> string \<Rightarrow> rtype \<Rightarrow> stats \<Rightarrow> resolve_result \<times> stats" where
  "resolve_sequential ups env name qt st = sequential_loop ups 0 env name qt st"

text \<open>The round-robin loop runs over the offsets \<open>i\<close> from the start index.\<close>

fun round_robin_loop :: "nat list \<Rightarrow> nat \<Rightarrow> upstream list \<Rightarrow> lookup_env \<Rightarrow> string \<Rightarrow> rtype \<Rightarrow> stats \<Rightarrow> resolve_result \<times> stats" where
  "round_robin_loop [] start_index ups env name qt st = (Inl (''All upstreams failed for '' @ name), st)"
| "round_robin_loop (i # is) start_index ups env name qt st =
     (let idx = (start_index + i) mod length ups; up = ups ! idx in
      case handle_lookup_result (ev_lookup env idx name qt) idx (up_url up) (ev_start env) (ev_done env idx) st of
        (Inr val, st') \<Rightarrow> (Inr val, st')
      | (Inl e, st') \<Rightarrow> round_robin_loop is start_index ups env name qt st')"

definition resolve_round_robin :: "upstream list \<Rightarrow> u64 \<Rightarrow> lookup_env \<Rightarrow> string \<Rightarrow> rtype \<Rightarrow> stats
    \<Rightarrow> resolve_result outcome \<times> u64 \<times> stats" where
  "resolve_round_robin ups current env name qt st =
     (let current' = current + 1 in
      if length ups = 0 then (Inl RemainderByZero, current', st)
      else
        let start_index = unat current mod length ups;
            (res, st') = round_robin_loop [0..<length ups] start_index ups env name qt st
        in (Inr res, current', st'))"

fun parallel_loop :: "nat list \<Rightarrow> upstream list \<Rightarrow> lookup_env \<Rightarrow> string \<Rightarrow> rtype \<Rightarrow> stats \<Rightarrow> resolve_result \<times> stats" where
  "parallel_loop [] ups env name qt st = (Inl (''All upstreams failed for '' @ name), st)"
| "parallel_loop (idx # remaining) ups env name qt st =
     (case handle_lookup_result (ev_lookup env idx name qt) idx (up_url (ups ! idx)) (ev_start env) (ev_done env idx) st of
        (Inr val, st') \<Rightarrow> (Inr val, st')
      | (Inl e, st') \<Rightarrow> parallel_loop remaining ups env name qt st')"

definition resolve_parallel :: "upstream list \<Rightarrow> lookup_env \<Rightarrow> string \<Rightarrow> rtype \<Rightarrow> stats \<Rightarrow> resolve_result \<times> stats" where
  "resolve_parallel ups env name qt st = parallel_loop (ev_order env) ups env name qt st"

text \<open>\<open>dyn DnsResolver\<close>: one of the four, with the round-robin counter as its state.\<close>

datatype resolver =
    SingleResolver upstream
  | SequentialResolver "upstream list"
  | RoundRobinResolver "upstream list" u64
  | ParallelResolver "upstream list"

definition round_robin_new :: "upstream list \<Rightarrow> resolver" where
  "round_robin_new ups = RoundRobinResolver ups 0"

fun resolve :: "resolver \<Rightarrow> lookup_env \<Rightarrow> string \<Rightarrow> rtype \<Rightarrow> stats
    \<Rightarrow> resolve_result outcome \<times> resolver \<times> stats" where
  "resolve (SingleResolver up) env name qt st =
     (let (res, st') = resolve_single up env name qt st in (Inr res, SingleResolver up, st'))"
| "resolve (SequentialResolver ups) env name qt st =
     (let (res, st') = resolve_sequential ups env name qt st in (Inr res, SequentialResolver ups, st'))"
| "resolve (RoundRobinResolver ups current) env name qt st =
     (let (res, current', st') = resolve_round_robin ups current env name qt st
      in (res, RoundRobinResolver ups current', st'))"
| "resolve (ParallelResolver ups) env name qt st =
     (let (res, st') = resolve_parallel ups env name qt st in (Inr res, ParallelResolver ups, st'))"

section \<open>The reference: the first upstream that answers\<close>

definition upstream_fails :: "lookup_env \<Rightarrow> string \<Rightarrow> rtype \<Rightarrow> nat \<Rightarrow> bool" where
  "upstream_fails env name qt i \<longleftrightarrow>
     (case ev_lookup env i name qt of Inl e \<Rightarrow> \<not> str_contains e ''no records found'' | Inr _ \<Rightarrow> False)"

definition reply_of :: "lookup_env \<Rightarrow> string \<Rightarrow> rtype \<Rightarrow> nat \<Rightarrow> dns_record list" where
  "reply_of env name qt i = (case ev_lookup env i name qt of Inl e \<Rightarrow> [] | Inr rs \<Rightarrow> rs)"

definition latency_of :: "lookup_env \<Rightarrow> nat \<Rightarrow> u64" where
  "latency_of env i = duration_as_millis (ev_done env i - ev_start env)"

text \<open>Trying upstreams in a given order: the first that does not fail answers, with its url.\<close>

definition try_in_order :: "nat list \<Rightarrow> (nat \<Rightarrow> string) \<Rightarrow> string \<Rightarrow> lookup_env \<Rightarrow> string \<Rightarrow> rtype
    \<Rightarrow> stats \<Rightarrow> resolve_result \<times> stats" where
  "try_in_order is url err env name qt st =
     (case find (\<lambda>i. \<not> upstream_fails env name qt i) is of
        None \<Rightarrow> (Inl (err @ name), st)
      | Some i \<Rightarrow> (Inr (reply_of env name qt i, url i), record_upstream_latency i (latency_of env i) st))"

lemma handle_lookup_result_cases:
  "handle_lookup_result (ev_lookup env i name qt) i url (ev_start env) (ev_done env i) st =
     (if upstream_fails env name qt i
      then (Inl (projl (ev_lookup env i name qt)), st)
      else (Inr (reply_of env name qt i, url), record_upstream_latency i (latency_of env i) st))"
  by (auto simp: handle_lookup_result_def upstream_fails_def reply_of_def latency_of_def split: sum.splits)

lemma resolve_single_eq:
  "resolve_single up env name qt st =
     try_in_order [0] (\<lambda>_. up_url up) ''Upstream failed for '' env name qt st"
  by (simp add: resolve_single_def handle_lookup_result_cases try_in_order_def)

lemma try_in_order_Nil [simp]:
  "try_in_order [] url err env name qt st = (Inl (err @ name), st)"
  by (simp add: try_in_order_def)

lemma try_in_order_Cons [simp]:
  "try_in_order (i # is) url err env name qt st =
     (if upstream_fails env name qt i then try_in_order is url err env name qt st
      else (Inr (reply_of env name qt i, url i), record_upstream_latency i (latency_of env i) st))"
  by (simp add: try_in_order_def)

lemma sequential_loop_eq:
  "(\<And>k. k < length ups \<Longrightarrow> url (idx + k) = up_url (ups ! k)) \<Longrightarrow>
   sequential_loop ups idx env name qt st =
     try_in_order [idx..<idx + length ups] url ''All upstreams failed for '' env name qt st"
proof (induction ups arbitrary: idx st)
  case Nil
  then show ?case by simp
next
  case (Cons up ups)
  have u: "[idx..<idx + length (up # ups)] = idx # [idx + 1..<(idx + 1) + length ups]"
    by (subst upt_conv_Cons) simp_all
  have "url ((idx + 1) + k) = up_url (ups ! k)" if "k < length ups" for k
    using Cons.prems [of "Suc k"] that by simp
  note IH = Cons.IH [of "idx + 1", OF this]
  have "url idx = up_url up" using Cons.prems [of 0] by simp
  then show ?case
    unfolding u try_in_order_Cons using IH by (simp add: handle_lookup_result_cases)
qed

lemma resolve_sequential_eq:
  "resolve_sequential ups env name qt st =
     try_in_order [0..<length ups] (\<lambda>i. up_url (ups ! i)) ''All upstreams failed for '' env name qt st"
  unfolding resolve_sequential_def
  using sequential_loop_eq [of ups "\<lambda>i. up_url (ups ! i)" 0] by simp

lemma parallel_loop_eq:
  "parallel_loop is ups env name qt st =
     try_in_order is (\<lambda>i. up_url (ups ! i)) ''All upstreams failed for '' env name qt st"
  by (induction "is" arbitrary: st) (simp_all add: handle_lookup_result_cases)

lemma round_robin_loop_eq:
  "round_robin_loop is s ups env name qt st =
     try_in_order (map (\<lambda>i. (s + i) mod length ups) is) (\<lambda>i. up_url (ups ! i))
       ''All upstreams failed for '' env name qt st"
  by (induction "is" arbitrary: st) (simp_all add: handle_lookup_result_cases Let_def)

section \<open>The resolver's upstreams and the order it tries them in\<close>

fun upstreams_of :: "resolver \<Rightarrow> upstream list" where
  "upstreams_of (SingleResolver up) = [up]"
| "upstreams_of (SequentialResolver ups) = ups"
| "upstreams_of (RoundRobinResolver ups _) = ups"
| "upstreams_of (ParallelResolver ups) = ups"

definition upstream_urls :: "resolver \<Rightarrow> string list" where
  "upstream_urls r = map up_url (upstreams_of r)"

fun attempts :: "resolver \<Rightarrow> lookup_env \<Rightarrow> nat list" where
  "attempts (SingleResolver up) env = [0]"
| "attempts (SequentialResolver ups) env = [0..<length ups]"
| "attempts (RoundRobinResolver ups current) env =
     map (\<lambda>i. (unat current mod length ups + i) mod length ups) [0..<length ups]"
| "attempts (ParallelResolver ups) env = ev_order env"

fun failure_text :: "resolver \<Rightarrow> string" where
  "failure_text (SingleResolver up) = ''Upstream failed for ''"
| "failure_text _ = ''All upstreams failed for ''"

fun next_resolver :: "resolver \<Rightarrow> resolver" where
  "next_resolver (RoundRobinResolver ups current) = RoundRobinResolver ups (current + 1)"
| "next_resolver r = r"

definition resolver_ready :: "resolver \<Rightarrow> bool" where
  "resolver_ready r \<longleftrightarrow> upstreams_of r \<noteq> []"

definition completes_all :: "resolver \<Rightarrow> lookup_env \<Rightarrow> bool" where
  "completes_all r env \<longleftrightarrow> mset (ev_order env) = mset [0..<length (upstreams_of r)]"

lemma upstreams_of_next [simp]: "upstreams_of (next_resolver r) = upstreams_of r"
  by (cases r) simp_all

lemma resolver_ready_next [simp]: "resolver_ready (next_resolver r) = resolver_ready r"
  by (simp add: resolver_ready_def)

lemma upstream_urls_next [simp]: "upstream_urls (next_resolver r) = upstream_urls r"
  by (simp add: upstream_urls_def)

text \<open>Every strategy is the same search, in its own order.\<close>

lemma try_in_order_cong:
  "(\<And>i. i \<in> set is \<Longrightarrow> url i = url' i) \<Longrightarrow>
   try_in_order is url err env name qt st = try_in_order is url' err env name qt st"
  by (induction "is") simp_all

lemma add_mod_inj:
  fixes a i j n :: nat
  assumes "i < n" "j < n" "(a + i) mod n = (a + j) mod n"
  shows "i = j"
proof -
  have *: "v = u" if "u \<le> v" "v < n" "(a + v) mod n = (a + u) mod n" for u v
  proof -
    have "n dvd (a + v) - (a + u)"
      using that by (subst mod_eq_dvd_iff_nat [symmetric]) simp_all
    then have "n dvd v - u" by simp
    with that show ?thesis by (meson dvd_imp_le le_antisym less_imp_diff_less not_le zero_less_diff)
  qed
  from linorder_le_cases [of i j] show ?thesis
    using *[of i j] *[of j i] assms by auto
qed

lemma rotation_set:
  assumes "0 < n"
  shows "set (map (\<lambda>i. (s mod n + i) mod n) [0..<n]) = {..<n}"
proof -
  have inj: "inj_on (\<lambda>i. (s mod n + i) mod n) {..<n}"
    by (rule inj_onI) (use add_mod_inj in blast)
  have "(\<lambda>i. (s mod n + i) mod n) ` {..<n} \<subseteq> {..<n}" using assms by auto
  then have "(\<lambda>i. (s mod n + i) mod n) ` {..<n} = {..<n}"
    using inj by (simp add: card_image card_subset_eq)
  then show ?thesis by (simp add: atLeast_upt lessThan_atLeast0)
qed

lemma attempts_set:
  assumes "resolver_ready r" "completes_all r env"
  shows "set (attempts r env) = {..<length (upstreams_of r)}"
proof (cases r)
  case (RoundRobinResolver ups cur)
  with assms rotation_set [of "length ups"] show ?thesis by (simp add: resolver_ready_def)
next
  case (ParallelResolver ups)
  with assms(2) show ?thesis
    by (metis atLeast_upt attempts.simps(4) completes_all_def mset_eq_setD)
qed auto

lemma resolve_eq:
  assumes "resolver_ready r"
  shows "resolve r env name qt st =
    (case try_in_order (attempts r env) (\<lambda>i. up_url (upstreams_of r ! i)) (failure_text r) env name qt st
     of (res, st') \<Rightarrow> (Inr res, next_resolver r, st'))"
proof (cases r)
  case (RoundRobinResolver ups cur)
  with assms show ?thesis
    by (simp add: resolver_ready_def resolve_round_robin_def round_robin_loop_eq Let_def
        split: prod.splits)
qed (simp_all add: resolve_single_eq resolve_sequential_eq resolve_parallel_def parallel_loop_eq
      split: prod.splits)

declare resolve.simps [simp del]

lemma find_SomeD: "find P xs = Some x \<Longrightarrow> x \<in> set xs \<and> P x"
  by (auto simp: find_Some_iff)

section \<open>The interface\<close>

text \<open>
  \<open>trait DnsResolver\<close>: what the request handler relies on, whatever the strategy. A ready resolver
  never panics and stays ready; it changes nothing of the statistics but the latencies; a success
  is the reply of one of the upstreams, under its url; a failure means every upstream failed.
\<close>

locale dns_resolver =
  fixes lookup :: "'r \<Rightarrow> lookup_env \<Rightarrow> string \<Rightarrow> rtype \<Rightarrow> stats \<Rightarrow> resolve_result outcome \<times> 'r \<times> stats"
    and urls :: "'r \<Rightarrow> string list"
    and ready :: "'r \<Rightarrow> bool"
    and completes :: "'r \<Rightarrow> lookup_env \<Rightarrow> bool"
  assumes lookup_total: "ready r \<Longrightarrow> isl (fst (lookup r env name qt st)) = False"
    and lookup_keeps: "ready r \<Longrightarrow> lookup r env name qt st = (res, r', st') \<Longrightarrow>
      ready r' \<and> urls r' = urls r \<and> same_counters st st' \<and> (stats_wf st \<longrightarrow> stats_wf st')"
    and lookup_success: "ready r \<Longrightarrow> completes r env \<Longrightarrow>
      lookup r env name qt st = (Inr (Inr (records, url)), r', st') \<Longrightarrow>
      \<exists>i < length (urls r). \<not> upstream_fails env name qt i \<and> records = reply_of env name qt i
        \<and> url = urls r ! i"
    and lookup_failure: "ready r \<Longrightarrow> completes r env \<Longrightarrow>
      lookup r env name qt st = (Inr (Inl e), r', st') \<Longrightarrow>
      st' = st \<and> (\<forall>i < length (urls r). upstream_fails env name qt i)"
begin

lemma lookup_cases:
  assumes "ready r"
  obtains (ok) records url r' st' where "lookup r env name qt st = (Inr (Inr (records, url)), r', st')"
  | (err) e r' st' where "lookup r env name qt st = (Inr (Inl e), r', st')"
proof -
  obtain res r' st' where l: "lookup r env name qt st = (res, r', st')" by (metis prod_cases3)
  with lookup_total [OF assms, of env name qt st] obtain x where "res = Inr x"
    by (cases res) auto
  with l that show ?thesis by (cases x) auto
qed

lemma lookup_ok_iff:
  assumes "ready r" "completes r env"
  shows "(\<exists>records url r' st'. lookup r env name qt st = (Inr (Inr (records, url)), r', st')) \<longleftrightarrow>
    (\<exists>i < length (urls r). \<not> upstream_fails env name qt i)"
  using assms by (cases rule: lookup_cases [OF assms(1), of env name qt st])
    (auto dest: lookup_success lookup_failure)

end

lemma resolve_ready_total: "resolver_ready r \<Longrightarrow> isl (fst (resolve r env name qt st)) = False"
  by (simp add: resolve_eq split: prod.splits)

lemma try_in_order_keeps:
  "try_in_order is url err env name qt st = (res, st') \<Longrightarrow>
   same_counters st st' \<and> (stats_wf st \<longrightarrow> stats_wf st')"
  by (auto simp: try_in_order_def stats_wf_intros split: option.splits)

lemma resolve_keeps:
  "resolver_ready r \<Longrightarrow> resolve r env name qt st = (res, r', st') \<Longrightarrow>
   resolver_ready r' \<and> upstream_urls r' = upstream_urls r \<and> same_counters st st'
   \<and> (stats_wf st \<longrightarrow> stats_wf st')"
  by (auto simp: resolve_eq split: prod.splits dest: try_in_order_keeps)

lemma try_in_order_success:
  "try_in_order is url err env name qt st = (Inr (records, u), st') \<Longrightarrow>
   \<exists>i \<in> set is. \<not> upstream_fails env name qt i \<and> records = reply_of env name qt i \<and> u = url i"
  by (auto simp: try_in_order_def split: option.splits dest!: find_SomeD)

lemma try_in_order_failure:
  "try_in_order is url err env name qt st = (Inl e, st') \<Longrightarrow>
   st' = st \<and> (\<forall>i \<in> set is. upstream_fails env name qt i)"
  by (auto simp: try_in_order_def find_None_iff split: option.splits)

lemma resolve_success:
  assumes "resolver_ready r" "completes_all r env"
    and "resolve r env name qt st = (Inr (Inr (records, url)), r', st')"
  shows "\<exists>i < length (upstream_urls r). \<not> upstream_fails env name qt i
    \<and> records = reply_of env name qt i \<and> url = upstream_urls r ! i"
proof -
  have "try_in_order (attempts r env) (\<lambda>i. up_url (upstreams_of r ! i)) (failure_text r) env name qt st
      = (Inr (records, url), st')"
    using assms(1,3) by (simp add: resolve_eq split: prod.splits)
  from try_in_order_success [OF this] obtain i where
    "i \<in> set (attempts r env)" "\<not> upstream_fails env name qt i"
    "records = reply_of env name qt i" "url = up_url (upstreams_of r ! i)" by blast
  with attempts_set [OF assms(1,2)] show ?thesis
    by (intro exI [of _ i]) (simp add: upstream_urls_def)
qed

lemma resolve_failure:
  assumes "resolver_ready r" "completes_all r env"
    and "resolve r env name qt st = (Inr (Inl e), r', st')"
  shows "st' = st \<and> (\<forall>i < length (upstream_urls r). upstream_fails env name qt i)"
proof -
  have "try_in_order (attempts r env) (\<lambda>i. up_url (upstreams_of r ! i)) (failure_text r) env name qt st
      = (Inl e, st')"
    using assms(1,3) by (simp add: resolve_eq split: prod.splits)
  from try_in_order_failure [OF this] attempts_set [OF assms(1,2)] show ?thesis
    by (simp add: upstream_urls_def)
qed

interpretation upstreams: dns_resolver resolve upstream_urls resolver_ready completes_all
proof unfold_locales
  fix r env name qt st res r' st' records url e
  show "resolver_ready r \<Longrightarrow> isl (fst (resolve r env name qt st)) = False"
    by (rule resolve_ready_total)
  show "resolver_ready r \<Longrightarrow> resolve r env name qt st = (res, r', st') \<Longrightarrow>
      resolver_ready r' \<and> upstream_urls r' = upstream_urls r \<and> same_counters st st'
      \<and> (stats_wf st \<longrightarrow> stats_wf st')"
    by (rule resolve_keeps)
  show "resolver_ready r \<Longrightarrow> completes_all r env \<Longrightarrow>
      resolve r env name qt st = (Inr (Inr (records, url)), r', st') \<Longrightarrow>
      \<exists>i < length (upstream_urls r). \<not> upstream_fails env name qt i
        \<and> records = reply_of env name qt i \<and> url = upstream_urls r ! i"
    by (rule resolve_success)
  show "resolver_ready r \<Longrightarrow> completes_all r env \<Longrightarrow>
      resolve r env name qt st = (Inr (Inl e), r', st') \<Longrightarrow>
      st' = st \<and> (\<forall>i < length (upstream_urls r). upstream_fails env name qt i)"
    by (rule resolve_failure)
qed

section \<open>Consecutive calls\<close>

text \<open>The resolver after a list of calls, with the url each answered under.\<close>

fun resolve_calls :: "resolver \<Rightarrow> (lookup_env \<times> string \<times> rtype) list \<Rightarrow> stats \<Rightarrow> resolve_result outcome list" where
  "resolve_calls r [] st = []"
| "resolve_calls r ((env, name, qt) # calls) st =
     (case resolve r env name qt st of (res, r', st') \<Rightarrow> res # resolve_calls r' calls st')"

definition all_healthy :: "nat \<Rightarrow> lookup_env \<times> string \<times> rtype \<Rightarrow> bool" where
  "all_healthy n call \<longleftrightarrow>
     (case call of (env, name, qt) \<Rightarrow> \<forall>i < n. \<not> upstream_fails env name qt i)"

definition answered_url :: "resolve_result outcome \<Rightarrow> string option" where
  "answered_url res = (case res of Inr (Inr (records, url)) \<Rightarrow> Some url | _ \<Rightarrow> None)"

lemma round_robin_call:
  assumes "ups \<noteq> []" "all_healthy (length ups) (env, name, qt)"
  shows "\<exists>res st'. resolve (RoundRobinResolver ups cur) env name qt st
      = (res, RoundRobinResolver ups (cur + 1), st')
    \<and> answered_url res = Some (up_url (ups ! (unat cur mod length ups)))"
proof -
  let ?n = "length ups"
  have "[0..<?n] = 0 # [1..<?n]" using assms(1) by (simp add: upt_conv_Cons)
  then have "attempts (RoundRobinResolver ups cur) env =
      (unat cur mod ?n) # map (\<lambda>i. (unat cur mod ?n + i) mod ?n) [1..<?n]" by simp
  moreover have "\<not> upstream_fails env name qt (unat cur mod ?n)"
    using assms by (simp add: all_healthy_def)
  ultimately show ?thesis
    using assms(1) by (simp add: resolve_eq resolver_ready_def answered_url_def)
qed

lemma round_robin_calls:
  assumes "ups \<noteq> []" "\<forall>call \<in> set calls. all_healthy (length ups) call"
  shows "map answered_url (resolve_calls (RoundRobinResolver ups cur) calls st) =
    map (\<lambda>k. Some (up_url (ups ! (unat (cur + of_nat k) mod length ups)))) [0..<length calls]"
  using assms
proof (induction calls arbitrary: cur st)
  case Nil
  then show ?case by simp
next
  case (Cons call calls)
  obtain env name qt where c: "call = (env, name, qt)" by (metis prod_cases3)
  with Cons.prems have "all_healthy (length ups) (env, name, qt)" by simp
  then obtain res st' where r: "resolve (RoundRobinResolver ups cur) env name qt st
        = (res, RoundRobinResolver ups (cur + 1), st')"
      "answered_url res = Some (up_url (ups ! (unat cur mod length ups)))"
    using round_robin_call [OF Cons.prems(1)] by blast
  have IH: "map answered_url (resolve_calls (RoundRobinResolver ups (cur + 1)) calls st') =
      map (\<lambda>k. Some (up_url (ups ! (unat (cur + 1 + of_nat k) mod length ups)))) [0..<length calls]"
    using Cons by (intro Cons.IH) simp_all
  have "map f [0..<Suc n] = f 0 # map (\<lambda>k. f (Suc k)) [0..<n]" for f :: "nat \<Rightarrow> string option" and n
    by (simp add: upt_conv_Cons map_Suc_upt [symmetric] del: upt_Suc)
  then show ?case
    using r IH by (simp add: c add.assoc del: upt_Suc)
qed

lemma rotation_mset:
  assumes "0 < n"
  shows "mset (map (\<lambda>k. (s + k) mod n) [0..<n]) = mset [0..<n]"
proof -
  have eq: "map (\<lambda>k. (s + k) mod n) [0..<n] = map (\<lambda>k. (s mod n + k) mod n) [0..<n]"
    by (simp add: mod_add_left_eq)
  have "inj_on (\<lambda>k. (s + k) mod n) {0..<n}"
    by (rule inj_onI) (use add_mod_inj in auto)
  then have "distinct (map (\<lambda>k. (s + k) mod n) [0..<n])"
    by (simp add: distinct_map)
  moreover have "set (map (\<lambda>k. (s + k) mod n) [0..<n]) = set [0..<n]"
    unfolding eq rotation_set [OF assms] by (simp add: lessThan_atLeast0)
  ultimately show ?thesis using set_eq_iff_mset_eq_distinct distinct_upt by blast
qed

lemma resolve_first:
  assumes "resolver_ready r"
  shows "resolve r env name qt st =
    (case find (\<lambda>i. \<not> upstream_fails env name qt i) (attempts r env) of
       None \<Rightarrow> (Inr (Inl (failure_text r @ name)), next_resolver r, st)
     | Some i \<Rightarrow> (Inr (Inr (reply_of env name qt i, up_url (upstreams_of r ! i))), next_resolver r,
                 record_upstream_latency i (latency_of env i) st))"
  using assms by (simp add: resolve_eq try_in_order_def split: option.splits)

section \<open>Properties\<close>

text \<open>
  C14. Every strategy is the search for the first upstream that does not fail, in the strategy's
  order (the only one; the configured order; the configured order rotated to the counter; the order
  of completion). It never panics, counts one latency, against the upstream that answers, and
  fails, with its error text, exactly when all it tried failed.
\<close>

theorem resolve_first_answer:
  assumes "resolver_ready r"
  shows "resolve r env name qt st =
    (case find (\<lambda>i. \<not> upstream_fails env name qt i) (attempts r env) of
       None \<Rightarrow> (Inr (Inl (failure_text r @ name)), next_resolver r, st)
     | Some i \<Rightarrow> (Inr (Inr (reply_of env name qt i, up_url (upstreams_of r ! i))), next_resolver r,
                 record_upstream_latency i (latency_of env i) st))"
  using assms by (rule resolve_first)

theorem resolve_first_answer_witness:
  "let u = \<lambda>n. \<lparr>up_url = n, up_resolver = \<lparr>ur_address = (V4 1, 53), ur_protocol = Udp,
                  ur_tls_dns_name = None, ur_cache_size = 0, ur_timeout_ms = 200\<rparr>\<rparr>;
       env = \<lparr>ev_lookup = (\<lambda>i _ _. if i = 0 then Inl ''timed out'' else Inr []), ev_start = 0,
              ev_done = (\<lambda>_. 5000000), ev_order = [0, 1]\<rparr>
   in fst (resolve (RoundRobinResolver [u ''a'', u ''b''] 2) env ''x'' RT_A (stats_new 1 [] [] 0))
      = Inr (Inr ([], ''b''))"
proof -
  let ?u = "\<lambda>n. \<lparr>up_url = n, up_resolver = \<lparr>ur_address = (V4 1, 53), ur_protocol = Udp,
                  ur_tls_dns_name = None, ur_cache_size = 0, ur_timeout_ms = 200\<rparr>\<rparr>"
  have "resolver_ready (RoundRobinResolver [?u ''a'', ?u ''b''] 2)"
    by (simp add: resolver_ready_def)
  from resolve_first_answer [OF this] show ?thesis
    by (simp add: upstream_fails_def reply_of_def)
qed

text \<open>
  All strategies agree on whether a name resolves: a ready resolver succeeds exactly when some
  upstream does not fail; a success carries the reply and the url of one of them; a failure leaves
  the statistics as they were.
\<close>

theorem resolve_succeeds_iff:
  assumes "resolver_ready r" "completes_all r env"
  shows "((\<exists>records url. fst (resolve r env name qt st) = Inr (Inr (records, url))) \<longleftrightarrow>
       (\<exists>i < length (upstreams_of r). \<not> upstream_fails env name qt i))
    \<and> (\<forall>records url. fst (resolve r env name qt st) = Inr (Inr (records, url)) \<longrightarrow>
       (\<exists>i < length (upstreams_of r). \<not> upstream_fails env name qt i
          \<and> records = reply_of env name qt i \<and> url = up_url (upstreams_of r ! i)))
    \<and> (\<forall>e. fst (resolve r env name qt st) = Inr (Inl e) \<longrightarrow> snd (snd (resolve r env name qt st)) = st)"
proof -
  obtain res r' st' where l: "resolve r env name qt st = (res, r', st')" by (metis prod_cases3)
  have len: "length (upstream_urls r) = length (upstreams_of r)" by (simp add: upstream_urls_def)
  note ok = upstreams.lookup_ok_iff [OF assms, of name qt st, unfolded len]
    and success = upstreams.lookup_success [OF assms, of name qt st, unfolded len]
    and failure = upstreams.lookup_failure [OF assms, of name qt st, unfolded len]
  show ?thesis
    using ok success failure l by (fastforce simp: upstream_urls_def)
qed

theorem resolve_succeeds_iff_witness:
  "let u = \<lparr>up_url = ''a'', up_resolver = \<lparr>ur_address = (V4 1, 53), ur_protocol = Udp,
              ur_tls_dns_name = None, ur_cache_size = 0, ur_timeout_ms = 200\<rparr>\<rparr>;
       env = \<lparr>ev_lookup = (\<lambda>i _ _. if i = 0 then Inl ''timed out'' else Inr []), ev_start = 0,
              ev_done = (\<lambda>_. 1), ev_order = [1, 0]\<rparr>
   in \<exists>records url. fst (resolve (ParallelResolver [u, u]) env ''x'' RT_A (stats_new 1 [] [] 0))
        = Inr (Inr (records, url))"
proof -
  let ?u = "\<lparr>up_url = ''a'', up_resolver = \<lparr>ur_address = (V4 1, 53), ur_protocol = Udp,
              ur_tls_dns_name = None, ur_cache_size = 0, ur_timeout_ms = 200\<rparr>\<rparr>"
  let ?env = "\<lparr>ev_lookup = (\<lambda>i _ _. if i = 0 then Inl ''timed out'' else Inr []), ev_start = 0,
              ev_done = (\<lambda>_. 1), ev_order = [1, 0]\<rparr>"
  have r: "resolver_ready (ParallelResolver [?u, ?u])" "completes_all (ParallelResolver [?u, ?u]) ?env"
    by (simp_all add: resolver_ready_def completes_all_def upt_rec)
  have "\<not> upstream_fails ?env ''x'' RT_A 1" by (simp add: upstream_fails_def)
  then have "\<exists>i < length (upstreams_of (ParallelResolver [?u, ?u])). \<not> upstream_fails ?env ''x'' RT_A i"
    by (intro exI [of _ 1]) simp
  with resolve_succeeds_iff [OF r, of "''x''" RT_A] show ?thesis
    unfolding Let_def by blast
qed



end
