(* ===== verification/Upstream_Setup.thy ===== *)
theory Upstream_Setup
  imports Config_Model Resolver_Model
begin

text \<open>
  \<open>src/resolver/mod.rs\<close>: building the upstreams and choosing the strategy from the configuration.
  The parsers of URLs and addresses and the bootstrap name lookup are the parameter \<open>net\<close>; an
  upstream resolver is the configuration it is built with.
\<close>

section \<open>What the network and the parsers answer\<close>

record url =
  url_scheme :: string
  url_port :: "u16 option"
  url_host_str :: "string option"

datatype bootstrap = GoogleBootstrap | BootstrapServers "(ip \<times> u16) list"

record net =
  nt_parse_url :: "string \<Rightarrow> string + url"
  nt_parse_ip :: "string \<Rightarrow> ip option"
  nt_parse_socket_addr :: "string \<Rightarrow> (ip \<times> u16) option"
  nt_lookup_ip :: "bootstrap \<Rightarrow> string \<Rightarrow> string + ip list"

section \<open>One upstream\<close>

definition bootstrap_config :: "net \<Rightarrow> config \<Rightarrow> bootstrap" where
  "bootstrap_config net c =
     (if cf_bootstrap_dns c = [] then GoogleBootstrap
      else BootstrapServers (List.map_filter (nt_parse_socket_addr net) (cf_bootstrap_dns c)))"

definition bootstrap_host :: "net \<Rightarrow> config \<Rightarrow> string \<Rightarrow> u16 \<Rightarrow> string + ip \<times> u16" where
  "bootstrap_host net c host port =
     (case nt_parse_ip net host of
        Some addr \<Rightarrow> Inr (addr, port)
      | None \<Rightarrow>
          res_bind (nt_lookup_ip net (bootstrap_config net c) host) (\<lambda>lookup.
            case lookup of
              [] \<Rightarrow> Inl ''No IP found for bootstrap host''
            | ip # _ \<Rightarrow> Inr (ip, port)))"

definition protocol_of_scheme :: "string \<Rightarrow> protocol" where
  "protocol_of_scheme scheme =
     (if scheme = ''udp'' then Udp
      else if scheme = ''tcp'' then Tcp
      else if scheme = ''tls'' then Tls
      else if scheme = ''https'' then Https
      else if scheme = ''quic'' then Quic
      else if scheme = ''h3'' then H3
      else Udp)"

fun default_port_of :: "protocol \<Rightarrow> u16" where
  "default_port_of Udp = 53"
| "default_port_of Tcp = 53"
| "default_port_of Tls = 853"
| "default_port_of Https = 443"
| "default_port_of H3 = 443"
| "default_port_of Quic = 853"

definition create_single_upstream :: "net \<Rightarrow> config \<Rightarrow> string \<Rightarrow> nat \<Rightarrow> string + upstream option" where
  "create_single_upstream net c upstream_url idx =
     (case nt_parse_url net upstream_url of
        Inl e \<Rightarrow> Inl ''Failed to parse upstream URL''
      | Inr url \<Rightarrow>
          let protocol = protocol_of_scheme (url_scheme url);
              port = (case url_port url of Some p \<Rightarrow> p | None \<Rightarrow> default_port_of protocol);
              host_str = (case url_host_str url of Some h \<Rightarrow> h | None \<Rightarrow> ''0.0.0.0'')
          in case bootstrap_host net c host_str port of
               Inl e \<Rightarrow> Inr None
             | Inr socket_addr \<Rightarrow>
                 Inr (Some \<lparr>up_url = upstream_url,
                   up_resolver = \<lparr>ur_address = socket_addr, ur_protocol = protocol,
                     ur_tls_dns_name =
                       (if protocol \<in> {Tls, Https, Quic, H3} then Some host_str else None),
                     ur_cache_size = 0, ur_timeout_ms = cf_upstream_timeout_ms c\<rparr>\<rparr>))"

definition create_default_upstream :: "net \<Rightarrow> config \<Rightarrow> string + upstream" where
  "create_default_upstream net c =
     res_bind (create_single_upstream net c ''h3://dns.google/dns-query'' 0) (\<lambda>u.
       case u of Some up \<Rightarrow> Inr up | None \<Rightarrow> Inl ''Failed to create default upstream'')"

section \<open>All upstreams and the strategy\<close>

text \<open>A server whose url does not parse or whose host does not resolve is logged and skipped.\<close>

fun create_upstreams :: "net \<Rightarrow> config \<Rightarrow> nat \<Rightarrow> string list \<Rightarrow> upstream list" where
  "create_upstreams net c idx [] = []"
| "create_upstreams net c idx (u # us) =
     (case create_single_upstream net c u idx of
        Inr (Some up) \<Rightarrow> up # create_upstreams net c (idx + 1) us
      | Inr None \<Rightarrow> create_upstreams net c (idx + 1) us
      | Inl e \<Rightarrow> create_upstreams net c (idx + 1) us)"

definition create_configured_upstreams :: "net \<Rightarrow> config \<Rightarrow> string + upstream list" where
  "create_configured_upstreams net c = Inr (create_upstreams net c 0 (cf_upstream_servers c))"

definition create_resolver :: "net \<Rightarrow> config \<Rightarrow> string + resolver" where
  "create_resolver net c =
     res_bind
       (if cf_upstream_servers c = []
        then res_bind (create_default_upstream net c) (\<lambda>up. Inr [up])
        else (case create_configured_upstreams net c of
                Inr configured \<Rightarrow> Inr configured
              | Inl e \<Rightarrow> Inr []))
       (\<lambda>upstreams.
          if upstreams = [] then Inl ''No valid upstreams available''
          else if length upstreams = 1 then Inr (SingleResolver (last upstreams))
          else if cf_resolution_policy c = ''sequential'' then Inr (SequentialResolver upstreams)
          else if cf_resolution_policy c = ''round-robin'' then Inr (round_robin_new upstreams)
          else if cf_resolution_policy c = ''parallel'' then Inr (ParallelResolver upstreams)
          else Inr (ParallelResolver upstreams))"

section \<open>Lemmas\<close>

definition usable :: "net \<Rightarrow> config \<Rightarrow> string \<Rightarrow> bool" where
  "usable net c u \<longleftrightarrow> (\<exists>up. create_single_upstream net c u 0 = Inr (Some up))"

lemma create_single_upstream_idx:
  "create_single_upstream net c u i = create_single_upstream net c u j"
  by (simp add: create_single_upstream_def)

lemma create_single_upstream_url:
  "create_single_upstream net c u i = Inr (Some up) \<Longrightarrow> up_url up = u"
  by (auto simp: create_single_upstream_def Let_def split: sum.splits)

lemma create_upstreams_urls:
  "map up_url (create_upstreams net c idx us) = filter (usable net c) us"
proof (induction us arbitrary: idx)
  case (Cons u us)
  show ?case
  proof (cases "usable net c u")
    case True
    then obtain up where "create_single_upstream net c u idx = Inr (Some up)"
      unfolding usable_def using create_single_upstream_idx by metis
    with True Cons.IH show ?thesis by (simp add: create_single_upstream_url)
  next
    case False
    then have "create_single_upstream net c u idx \<noteq> Inr (Some up)" for up
      unfolding usable_def using create_single_upstream_idx by metis
    with False Cons.IH show ?thesis by (auto split: sum.splits option.splits)
  qed
qed simp

lemma create_resolver_configured:
  assumes "cf_upstream_servers c \<noteq> []" "create_resolver net c = Inr r"
  shows "upstreams_of r = create_upstreams net c 0 (cf_upstream_servers c) \<and> upstreams_of r \<noteq> []"
proof -
  let ?ups = "create_upstreams net c 0 (cf_upstream_servers c)"
  have "?ups \<noteq> []"
    using assms by (auto simp: create_resolver_def create_configured_upstreams_def)
  moreover have "length ?ups = 1 \<Longrightarrow> [last ?ups] = ?ups"
    by (cases ?ups) auto
  ultimately show ?thesis
    using assms
    by (auto simp: create_resolver_def create_configured_upstreams_def round_robin_new_def
        split: if_splits)
qed

lemma create_resolver_default:
  assumes "cf_upstream_servers c = []" "create_resolver net c = Inr r"
  shows "\<exists>up. r = SingleResolver up \<and> up_url up = ''h3://dns.google/dns-query''"
proof -
  obtain up where up: "create_default_upstream net c = Inr up"
    using assms by (cases "create_default_upstream net c") (auto simp: create_resolver_def)
  then have "up_url up = ''h3://dns.google/dns-query''"
    by (auto simp: create_default_upstream_def res_bind_def create_single_upstream_url
        split: sum.splits option.splits)
  with up assms show ?thesis by (auto simp: create_resolver_def)
qed

lemma create_resolver_spec:
  "(case create_resolver net c of
      Inl e \<Rightarrow> filter (usable net c) (if cf_upstream_servers c = []
                 then [''h3://dns.google/dns-query''] else cf_upstream_servers c) = []
    | Inr r \<Rightarrow> resolver_ready r
        \<and> upstream_urls r = filter (usable net c) (if cf_upstream_servers c = []
                 then [''h3://dns.google/dns-query''] else cf_upstream_servers c)
        \<and> (case r of
             SingleResolver up \<Rightarrow> True
           | SequentialResolver ups \<Rightarrow> 2 \<le> length ups \<and> cf_resolution_policy c = ''sequential''
           | RoundRobinResolver ups cur \<Rightarrow>
               2 \<le> length ups \<and> cf_resolution_policy c = ''round-robin'' \<and> cur = 0
           | ParallelResolver ups \<Rightarrow> 2 \<le> length ups
               \<and> cf_resolution_policy c \<notin> {''sequential'', ''round-robin''}))"
proof (cases "cf_upstream_servers c = []")
  case True
  let ?d = "''h3://dns.google/dns-query''"
  show ?thesis
  proof (cases "usable net c ?d")
    case True
    then obtain up where "create_single_upstream net c ?d 0 = Inr (Some up)"
      by (auto simp: usable_def)
    moreover from this have "up_url up = ?d" by (rule create_single_upstream_url)
    ultimately show ?thesis
      using True \<open>cf_upstream_servers c = []\<close>
      by (simp add: create_resolver_def create_default_upstream_def resolver_ready_def
          upstream_urls_def)
  next
    case False
    then have "create_single_upstream net c ?d 0 \<noteq> Inr (Some up)" for up
      by (simp add: usable_def)
    then have "\<exists>e. create_default_upstream net c = Inl e"
      by (cases "create_single_upstream net c ?d 0")
        (auto simp: create_default_upstream_def split: option.splits)
    with False \<open>cf_upstream_servers c = []\<close> show ?thesis
      by (auto simp: create_resolver_def)
  qed
next
  case False
  let ?ups = "create_upstreams net c 0 (cf_upstream_servers c)"
  have urls: "filter (usable net c) (cf_upstream_servers c) = map up_url ?ups"
    by (simp add: create_upstreams_urls)
  show ?thesis
  proof (cases "length ?ups \<le> 1")
    case True
    with False urls show ?thesis
      by (cases ?ups) (simp_all add: create_resolver_def create_configured_upstreams_def
          resolver_ready_def upstream_urls_def)
  next
    case 2: False
    then have "?ups \<noteq> []" "length ?ups \<noteq> 1" "2 \<le> length ?ups" by auto
    with False urls show ?thesis
      by (simp add: create_resolver_def create_configured_upstreams_def resolver_ready_def
          upstream_urls_def round_robin_new_def)
  qed
qed

section \<open>Properties\<close>

text \<open>
  C19. A resolver that is created is ready: it has at least one upstream, so the round-robin remainder
  never divides by zero; its upstreams are the usable ones of the configuration, in its order (the
  built-in default when none is configured), one alone is queried directly, and otherwise the
  policy text picks the strategy, an unknown one meaning parallel. None is created exactly when no
  upstream is usable.
\<close>

theorem create_resolver_correct:
  "(case create_resolver net c of
      Inl e \<Rightarrow> filter (usable net c) (if cf_upstream_servers c = []
                 then [''h3://dns.google/dns-query''] else cf_upstream_servers c) = []
    | Inr r \<Rightarrow> resolver_ready r
        \<and> upstream_urls r = filter (usable net c) (if cf_upstream_servers c = []
                 then [''h3://dns.google/dns-query''] else cf_upstream_servers c)
        \<and> (case r of
             SingleResolver up \<Rightarrow> True
           | SequentialResolver ups \<Rightarrow> 2 \<le> length ups \<and> cf_resolution_policy c = ''sequential''
           | RoundRobinResolver ups cur \<Rightarrow>
               2 \<le> length ups \<and> cf_resolution_policy c = ''round-robin'' \<and> cur = 0
           | ParallelResolver ups \<Rightarrow> 2 \<le> length ups
               \<and> cf_resolution_policy c \<notin> {''sequential'', ''round-robin''}))"
  by (rule create_resolver_spec)

text \<open>
  C37. An upstream that is skipped at start-up shifts the statistics of the ones after it: the latency
  of the upstream at position \<open>j\<close> of the resolver is counted, and shown in the dump, under the name
  at position \<open>j\<close> of the configured servers. When the first server is not usable and the second is,
  the second one's latency is shown under the first one's name.
\<close>

theorem skipped_upstream_shifts_latency_names:
  assumes "cf_upstream_servers c = [dead, live]"
    and "\<not> usable net c dead" "usable net c live" "dead \<noteq> live"
    and "create_resolver net c = Inr r" "\<not> upstream_fails env name qt 0"
    and "resolve r env name qt (stats_new l (cf_upstream_servers c) bs t) = (res, r', st')"
  shows "answered_url res = Some live
    \<and> st_upstream_count st' = (replicate 16 0)[0 := 1]
    \<and> name_or_unknown (st_upstream_names st') 0 = dead"
proof -
  have r: "map up_url (upstreams_of r) = [live]" "upstreams_of r \<noteq> []"
    using create_resolver_configured [OF _ assms(5)] create_upstreams_urls [of net c 0 "[dead, live]"]
      assms(1-3) by auto
  then obtain up where up: "upstreams_of r = [up]" "up_url up = live" by auto
  have "r = SingleResolver up"
    using create_resolver_spec [of net c] assms(5) up(1)
    by (cases r) simp_all
  then have "(res, r', st') = (Inr (Inr (reply_of env name qt 0, live)), SingleResolver up,
      record_upstream_latency 0 (latency_of env 0) (stats_new l (cf_upstream_servers c) bs t))"
    using assms(6,7) up resolve_first [of r] by (simp add: resolver_ready_def)
  then show ?thesis
    using assms(1)
    by (simp add: answered_url_def record_upstream_latency_def stats_new_def fetch_add_at_def
        name_or_unknown_def opt_index_def)
qed

theorem skipped_upstream_shifts_latency_names_witness:
  "let c = config_default\<lparr>cf_upstream_servers := [''udp://a'', ''udp://b'']\<rparr>;
       net = \<lparr>nt_parse_url = (\<lambda>u. Inr \<lparr>url_scheme = ''udp'', url_port = None, url_host_str = Some u\<rparr>),
              nt_parse_ip = (\<lambda>h. if h = ''udp://b'' then Some (V4 1) else None),
              nt_parse_socket_addr = (\<lambda>_. None), nt_lookup_ip = (\<lambda>_ _. Inl ''timeout'')\<rparr>;
       env = \<lparr>ev_lookup = (\<lambda>_ _ _. Inr []), ev_start = 0, ev_done = (\<lambda>_. 1), ev_order = [0]\<rparr>
   in \<exists>r. create_resolver net c = Inr r \<and>
      answered_url (fst (resolve r env ''x'' RT_A (stats_new 1 (cf_upstream_servers c) [] 0)))
        = Some ''udp://b'' \<and>
      name_or_unknown (st_upstream_names (snd (snd
        (resolve r env ''x'' RT_A (stats_new 1 (cf_upstream_servers c) [] 0))))) 0 = ''udp://a''"
proof -
  let ?c = "config_default\<lparr>cf_upstream_servers := [''udp://a'', ''udp://b'']\<rparr>"
  let ?net = "\<lparr>nt_parse_url = (\<lambda>u. Inr \<lparr>url_scheme = ''udp'', url_port = None, url_host_str = Some u\<rparr>),
              nt_parse_ip = (\<lambda>h. if h = ''udp://b'' then Some (V4 1) else None),
              nt_parse_socket_addr = (\<lambda>_. None), nt_lookup_ip = (\<lambda>_ _. Inl ''timeout'')\<rparr>"
  let ?env = "\<lparr>ev_lookup = (\<lambda>_ _ _. Inr []), ev_start = 0, ev_done = (\<lambda>_. 1), ev_order = [0]\<rparr>"
  let ?st = "stats_new 1 (cf_upstream_servers ?c) [] 0"
  have u: "\<not> usable ?net ?c ''udp://a''" "usable ?net ?c ''udp://b''"
    by (simp_all add: usable_def create_single_upstream_def bootstrap_host_def protocol_of_scheme_def Let_def)
  have c: "\<exists>r. create_resolver ?net ?c = Inr r"
    using create_resolver_spec [of ?net ?c] u by (auto split: sum.splits)
  then obtain r where r: "create_resolver ?net ?c = Inr r" by blast
  obtain res r' st' where l: "resolve r ?env ''x'' RT_A ?st = (res, r', st')" by (metis prod_cases3)
  have "cf_upstream_servers ?c = [''udp://a'', ''udp://b'']" "''udp://a'' \<noteq> ''udp://b''"
    "\<not> upstream_fails ?env ''x'' RT_A 0"
    by (simp_all add: upstream_fails_def)
  from skipped_upstream_shifts_latency_names [OF this(1) u this(2) r this(3) l] r l
  show ?thesis unfolding Let_def by (intro exI [of _ r]) simp
qed

end
