(* ===== verification/Domain_Matcher.thy ===== *)
theory Domain_Matcher
  imports Dns_Types
begin

text \<open>
  \<open>src/engine/traits.rs\<close> and \<open>src/engine/domain_matcher.rs\<close>: the blocklist matcher's interface as a
  locale, and the hashed matcher with its suffix search.
\<close>

section \<open>The hashed matcher\<close>

record hashed_matcher =
  hm_domains :: "string \<rightharpoonup> u8"
  hm_allowlist :: "string \<rightharpoonup> unit"

fun insert_allowed :: "string list \<Rightarrow> (string \<rightharpoonup> unit) \<Rightarrow> (string \<rightharpoonup> unit)" where
  "insert_allowed [] m = m"
| "insert_allowed (d # ds) m = insert_allowed ds (m(d \<mapsto> ()))"

definition hashed_matcher_new :: "(string \<rightharpoonup> u8) \<Rightarrow> string list \<Rightarrow> hashed_matcher" where
  "hashed_matcher_new domains allowlist_vec =
     \<lparr>hm_domains = domains, hm_allowlist = insert_allowed allowlist_vec Map.empty\<rparr>"

text \<open>
  The loop of \<open>check\<close>: look the whole part up; strip the leading label, up to the first dot; stop
  at a part with no dot, or when nothing is left after it.
\<close>

function suffix_match :: "(string \<rightharpoonup> u8) \<Rightarrow> string \<Rightarrow> u8 option" where
  "suffix_match domains part =
     (case domains part of
        Some source_id \<Rightarrow> Some source_id
      | None \<Rightarrow>
          (case str_find (CHR ''.'') part of
             Some idx \<Rightarrow>
               (let part' = drop (idx + 1) part in
                if part' = [] then None else suffix_match domains part')
           | None \<Rightarrow> None))"
  by pat_completeness auto
termination
  by (relation "measure (\<lambda>(_, part). length part)") (auto dest: str_find_length)

declare suffix_match.simps [simp del]

definition check :: "hashed_matcher \<Rightarrow> string \<Rightarrow> u8 option" where
  "check m domain =
     (if hm_allowlist m domain \<noteq> None then None else suffix_match (hm_domains m) domain)"

section \<open>The suffixes of a domain\<close>

text \<open>
  The reference: a domain's ancestors are itself and what follows each of its dots, other than the
  empty string; the search takes the first of them that is listed.
\<close>

fun after_dots :: "string \<Rightarrow> string list" where
  "after_dots [] = []"
| "after_dots (c # s) = (if c = CHR ''.'' then s # after_dots s else after_dots s)"

definition ancestors :: "string \<Rightarrow> string list" where
  "ancestors d = d # filter (\<lambda>s. s \<noteq> []) (after_dots d)"

fun first_listed :: "(string \<rightharpoonup> u8) \<Rightarrow> string list \<Rightarrow> u8 option" where
  "first_listed m [] = None"
| "first_listed m (d # ds) = (case m d of Some i \<Rightarrow> Some i | None \<Rightarrow> first_listed m ds)"

lemma after_dots_append: "CHR ''.'' \<notin> set a \<Longrightarrow> after_dots (a @ b) = after_dots b"
  by (induction a) auto

lemma after_dots_no_dot [simp]: "CHR ''.'' \<notin> set a \<Longrightarrow> after_dots a = []"
  by (induction a) auto

lemma set_after_dots: "s \<in> set (after_dots d) \<longleftrightarrow> (\<exists>p. d = p @ CHR ''.'' # s)"
  by (induction d) (auto simp: Cons_eq_append_conv)

lemma after_dots_find:
  "str_find (CHR ''.'') d = Some i \<Longrightarrow> after_dots d = drop (i + 1) d # after_dots (drop (i + 1) d)"
  by (auto simp: str_find_Some after_dots_append)

lemma set_ancestors: "s \<in> set (ancestors d) \<longleftrightarrow> s = d \<or> s \<noteq> [] \<and> (\<exists>p. d = p @ CHR ''.'' # s)"
  by (auto simp: ancestors_def set_after_dots)

lemma first_listed_None: "first_listed m ds = None \<longleftrightarrow> (\<forall>d \<in> set ds. m d = None)"
  by (induction ds) (auto split: option.splits)

lemma first_listed_Some: "first_listed m ds = Some i \<Longrightarrow> \<exists>d \<in> set ds. m d = Some i"
  by (induction ds) (auto split: option.splits)

lemma first_listed_dom:
  "dom m = dom m' \<Longrightarrow> first_listed m ds = None \<longleftrightarrow> first_listed m' ds = None"
  unfolding first_listed_None by (metis domIff)

lemma suffix_match_first_listed: "suffix_match m d = first_listed m (ancestors d)"
proof (induction m d rule: suffix_match.induct)
  case (1 m d)
  show ?case
  proof (cases "m d")
    case None
    show ?thesis
    proof (cases "str_find (CHR ''.'') d")
      case None
      with \<open>m d = None\<close> show ?thesis
        by (simp add: suffix_match.simps [of m d] ancestors_def) (simp add: str_find_None)
    next
      case (Some i)
      let ?p = "drop (i + 1) d"
      have IH: "?p \<noteq> [] \<Longrightarrow> suffix_match m ?p = first_listed m (ancestors ?p)"
        using 1 \<open>m d = None\<close> Some by simp
      have "after_dots d = ?p # after_dots ?p" using Some by (rule after_dots_find)
      then show ?thesis
        using IH \<open>m d = None\<close> Some
        by (cases "?p = []") (simp_all add: suffix_match.simps [of m d] ancestors_def Let_def)
    qed
  qed (simp add: suffix_match.simps [of m d] ancestors_def)
qed

lemma insert_allowed_dom: "dom (insert_allowed ds m) = set ds \<union> dom m"
  by (induction ds arbitrary: m) auto

lemma allowlist_dom [simp]: "dom (hm_allowlist (hashed_matcher_new m ds)) = set ds"
  by (simp add: hashed_matcher_new_def insert_allowed_dom)

lemma hm_allowlist_None [simp]:
  "hm_allowlist (hashed_matcher_new m ds) d = None \<longleftrightarrow> d \<notin> set ds"
  using allowlist_dom [of m ds] by (metis domIff)

lemma hm_domains_new [simp]: "hm_domains (hashed_matcher_new m ds) = m"
  by (simp add: hashed_matcher_new_def)

section \<open>The interface\<close>

text \<open>
  \<open>trait BlocklistMatcher\<close>: one operation. What its clients may rely on is stated over the set of
  names the matcher lists and the set it allows: an allowed name is never blocked, another is
  blocked exactly when it is listed or lies under a listed name.
\<close>

definition covered :: "string set \<Rightarrow> string \<Rightarrow> bool" where
  "covered L d \<longleftrightarrow> d \<in> L \<or> (\<exists>p s. d = p @ CHR ''.'' # s \<and> s \<noteq> [] \<and> s \<in> L)"

locale blocklist_matcher =
  fixes matcher_check :: "'m \<Rightarrow> string \<Rightarrow> u8 option"
    and listed :: "'m \<Rightarrow> string set"
    and allowed :: "'m \<Rightarrow> string set"
  assumes check_allowed: "d \<in> allowed m \<Longrightarrow> matcher_check m d = None"
    and check_covered: "d \<notin> allowed m \<Longrightarrow> matcher_check m d = None \<longleftrightarrow> \<not> covered (listed m) d"
begin

lemma check_blocked_iff: "matcher_check m d \<noteq> None \<longleftrightarrow> d \<notin> allowed m \<and> covered (listed m) d"
  by (metis check_allowed check_covered)

lemma check_same_sets:
  "listed m = listed m' \<Longrightarrow> allowed m = allowed m' \<Longrightarrow>
   matcher_check m d = None \<longleftrightarrow> matcher_check m' d = None"
  by (cases "d \<in> allowed m") (simp_all add: check_allowed check_covered)

lemma check_subdomain:
  "matcher_check m s \<noteq> None \<Longrightarrow> s \<noteq> [] \<Longrightarrow> p @ CHR ''.'' # s \<notin> allowed m \<Longrightarrow>
   matcher_check m (p @ CHR ''.'' # s) \<noteq> None"
proof -
  assume a: "matcher_check m s \<noteq> None" "s \<noteq> []" "p @ CHR ''.'' # s \<notin> allowed m"
  then consider "s \<in> listed m" | q t where "s = q @ CHR ''.'' # t" "t \<noteq> []" "t \<in> listed m"
    unfolding check_blocked_iff covered_def by blast
  then have "covered (listed m) (p @ CHR ''.'' # s)"
  proof cases
    case 1
    with a(2) show ?thesis unfolding covered_def by blast
  next
    case 2
    then have "p @ CHR ''.'' # s = (p @ CHR ''.'' # q) @ CHR ''.'' # t" by simp
    with 2 show ?thesis unfolding covered_def by blast
  qed
  with a(3) show ?thesis using check_blocked_iff by blast
qed

lemma check_monotone:
  "listed m \<subseteq> listed m' \<Longrightarrow> allowed m' \<subseteq> allowed m \<Longrightarrow>
   matcher_check m d \<noteq> None \<Longrightarrow> matcher_check m' d \<noteq> None"
  unfolding check_blocked_iff covered_def by blast

end

lemma covered_ancestors: "covered (dom m) d \<longleftrightarrow> (\<exists>a \<in> set (ancestors d). m a \<noteq> None)"
  unfolding covered_def set_ancestors Bex_def domIff by blast

lemma check_None_covered:
  "hm_allowlist m d = None \<Longrightarrow> check m d = None \<longleftrightarrow> \<not> covered (dom (hm_domains m)) d"
  by (simp add: check_def suffix_match_first_listed first_listed_None covered_ancestors)

interpretation hashed: blocklist_matcher check
  "\<lambda>m. dom (hm_domains m)" "\<lambda>m. dom (hm_allowlist m)"
proof unfold_locales
  fix d and m :: hashed_matcher
  show "d \<in> dom (hm_allowlist m) \<Longrightarrow> check m d = None" by (auto simp: check_def)
  show "d \<notin> dom (hm_allowlist m) \<Longrightarrow> check m d = None \<longleftrightarrow> \<not> covered (dom (hm_domains m)) d"
    by (rule check_None_covered) (simp only: domIff not_not)
qed

section \<open>Properties\<close>

text \<open>
  C4. The matcher blocks a name exactly when it is not on the allowlist itself and it, or the part
  after one of its dots, is on a blocklist; the part is cut at a label boundary, so a name that
  merely ends with a listed one is not blocked by it.
\<close>

theorem check_blocks_iff:
  "check (hashed_matcher_new domains allow) d \<noteq> None \<longleftrightarrow>
     d \<notin> set allow \<and>
     (d \<in> dom domains \<or> (\<exists>p s. d = p @ CHR ''.'' # s \<and> s \<noteq> [] \<and> s \<in> dom domains))"
  using hashed.check_blocked_iff [of "hashed_matcher_new domains allow" d]
  by (simp add: covered_def)

text \<open>
  C18. The loop of \<open>check\<close> refines the search over the list of the name's ancestors: the answer is
  the source of the longest listed one, so a list entry for a subdomain wins over one for its
  parent.
\<close>

theorem check_most_specific:
  "check (hashed_matcher_new domains allow) d =
     (if d \<in> set allow then None else first_listed domains (ancestors d))
   \<and> sorted_wrt (\<lambda>a b. length b < length a) (ancestors d)"
proof
  show "check (hashed_matcher_new domains allow) d =
      (if d \<in> set allow then None else first_listed domains (ancestors d))"
    by (simp add: check_def suffix_match_first_listed)
  have shorter: "length b < length s" if "b \<in> set (after_dots s)" for b s
    using that by (auto simp: set_after_dots)
  have "sorted_wrt (\<lambda>a b. length b < length a) (after_dots s)" for s
    by (induction s) (auto simp: shorter)
  then show "sorted_wrt (\<lambda>a b. length b < length a) (ancestors d)"
    by (auto simp: ancestors_def shorter sorted_wrt_filter)
qed

text \<open>
  A subdomain of a blocked name is blocked too, at any depth, unless the subdomain itself is on
  the allowlist; allowing a name does not allow its subdomains.
\<close>

theorem check_blocks_subdomains:
  assumes "check (hashed_matcher_new domains allow) s \<noteq> None" "s \<noteq> []"
    and "p @ CHR ''.'' # s \<notin> set allow"
  shows "check (hashed_matcher_new domains allow) (p @ CHR ''.'' # s) \<noteq> None"
proof (rule hashed.check_subdomain)
  show "p @ CHR ''.'' # s \<notin> dom (hm_allowlist (hashed_matcher_new domains allow))"
    using assms(3) by simp
qed (use assms in simp_all)

theorem check_blocks_subdomains_witness:
  "let m = hashed_matcher_new [''example.com'' \<mapsto> 1] [''allowed.example.com''] in
   check m ''example.com'' = Some 1 \<and> check m ''a.b.example.com'' \<noteq> None
   \<and> check m ''allowed.example.com'' = None"
proof -
  let ?m = "hashed_matcher_new [''example.com'' \<mapsto> 1] [''allowed.example.com'']"
  have e: "check ?m ''example.com'' = Some 1" "check ?m ''allowed.example.com'' = None"
    by (simp_all add: check_def suffix_match_first_listed ancestors_def)
  then have "check ?m (''a.b'' @ CHR ''.'' # ''example.com'') \<noteq> None"
    by (intro check_blocks_subdomains) simp_all
  with e show ?thesis by simp
qed

end
