(* ===== verification/Blocklist_Manager.thy ===== *)
theory Blocklist_Manager
  imports Config_Model Domain_Matcher
begin

text \<open>
  \<open>src/engine/blocklist_manager.rs\<close>: downloading, parsing and merging the blocklists into a matcher.

  The HTTP client is the parameter \<open>get\<close>: for a URL, an error text or the stream of what reading
  the next line of the body yields, an error or a line. \<open>buffer_unordered\<close> yields the downloads in
  the order they complete, the parameter \<open>order\<close> (a permutation of the list's positions). \<open>uni\<close> are
  the Unicode tables of \<open>to_lowercase\<close>.
\<close>

section \<open>Parsing\<close>

definition parse_line :: "(string \<Rightarrow> string) \<Rightarrow> string \<Rightarrow> string option" where
  "parse_line uni line =
     (let line = trim line in
      if line = [] \<or> starts_with line (CHR ''#'') then None
      else Some (to_lowercase uni line))"

type_synonym http_get = "string \<Rightarrow> string + (string + string) list"

text \<open>\<open>while let Ok(Some(line)) = lines.next_line().await\<close>: the loop ends at the first error.\<close>

fun read_entries :: "(string \<Rightarrow> string) \<Rightarrow> u8 \<Rightarrow> (string + string) list \<Rightarrow> (string \<times> u8) list" where
  "read_entries uni source_id [] = []"
| "read_entries uni source_id (Inl e # ls) = []"
| "read_entries uni source_id (Inr line # ls) =
     (case parse_line uni line of
        Some domain \<Rightarrow> (domain, source_id) # read_entries uni source_id ls
      | None \<Rightarrow> read_entries uni source_id ls)"

definition fetch_and_parse :: "(string \<Rightarrow> string) \<Rightarrow> http_get \<Rightarrow> string \<Rightarrow> string \<Rightarrow> u8 \<Rightarrow> (string \<times> u8) list" where
  "fetch_and_parse uni get name url source_id =
     (case get url of
        Inr lines \<Rightarrow> read_entries uni source_id lines
      | Inl e \<Rightarrow> [])"

section \<open>Refreshing\<close>

definition source_id_of :: "nat \<Rightarrow> u8" where
  "source_id_of idx = (if idx > 255 then 255 else of_nat idx)"

definition task :: "(string \<Rightarrow> string) \<Rightarrow> http_get \<Rightarrow> config \<Rightarrow> nat \<Rightarrow> (string \<times> u8) list" where
  "task uni get c idx =
     (case get_blocklists_sorted c ! idx of
        (name, url) \<Rightarrow> fetch_and_parse uni get name url (source_id_of idx))"

fun insert_entries :: "(string \<times> u8) list \<Rightarrow> (string \<rightharpoonup> u8) \<Rightarrow> (string \<rightharpoonup> u8)" where
  "insert_entries [] m = m"
| "insert_entries ((domain, source) # es) m = insert_entries es (m(domain \<mapsto> source))"

fun insert_lists :: "(string \<times> u8) list list \<Rightarrow> (string \<rightharpoonup> u8) \<Rightarrow> (string \<rightharpoonup> u8)" where
  "insert_lists [] m = m"
| "insert_lists (l # ls) m = insert_lists ls (insert_entries l m)"

definition refresh :: "(string \<Rightarrow> string) \<Rightarrow> http_get \<Rightarrow> nat list \<Rightarrow> config \<Rightarrow> hashed_matcher" where
  "refresh uni get order c =
     hashed_matcher_new (insert_lists (map (task uni get c) order) Map.empty) (cf_allowlist c)"

definition completion_order :: "config \<Rightarrow> nat list \<Rightarrow> bool" where
  "completion_order c order \<longleftrightarrow> mset order = mset [0..<length (cf_blocklists c)]"

section \<open>What is listed\<close>

definition parsed_domains :: "(string \<Rightarrow> string) \<Rightarrow> http_get \<Rightarrow> config \<Rightarrow> nat \<Rightarrow> string set" where
  "parsed_domains uni get c idx = fst ` set (task uni get c idx)"

lemma insert_entries_Cons [simp]: "insert_entries (e # es) m = insert_entries es (m(fst e \<mapsto> snd e))"
  by (cases e) simp

lemma insert_entries_dom: "dom (insert_entries es m) = fst ` set es \<union> dom m"
  by (induction es arbitrary: m) (simp_all del: fun_upd_apply)

lemma insert_lists_dom: "dom (insert_lists ls m) = (\<Union>l \<in> set ls. fst ` set l) \<union> dom m"
  by (induction ls arbitrary: m) (auto simp: insert_entries_dom)

lemma insert_entries_Some:
  "insert_entries es m d = Some i \<Longrightarrow> (d, i) \<in> set es \<or> m d = Some i"
  by (induction es arbitrary: m) (fastforce split: if_splits)+

lemma insert_lists_Some:
  "insert_lists ls m d = Some i \<Longrightarrow> (\<exists>l \<in> set ls. (d, i) \<in> set l) \<or> m d = Some i"
  by (induction ls arbitrary: m) (auto dest: insert_entries_Some)

lemma read_entries_source: "(d, i) \<in> set (read_entries uni sid ls) \<Longrightarrow> i = sid"
  by (induction uni sid ls rule: read_entries.induct) (auto split: option.splits)

lemma read_entries_line:
  "(d, i) \<in> set (read_entries uni sid ls) \<Longrightarrow> \<exists>line. Inr line \<in> set ls \<and> parse_line uni line = Some d"
  by (induction uni sid ls rule: read_entries.induct) (auto split: option.splits)

lemma read_entries_complete:
  "\<forall>l \<in> set ls. isl l = False \<Longrightarrow> Inr line \<in> set ls \<Longrightarrow> parse_line uni line = Some d \<Longrightarrow>
   (d, sid) \<in> set (read_entries uni sid ls)"
  by (induction uni sid ls rule: read_entries.induct) (auto split: option.splits)

lemma task_source: "(d, i) \<in> set (task uni get c idx) \<Longrightarrow> i = source_id_of idx"
  by (auto simp: task_def fetch_and_parse_def split: prod.splits sum.splits dest: read_entries_source)

lemma completion_order_set:
  "completion_order c order \<Longrightarrow> set order = {..<length (cf_blocklists c)}"
  unfolding completion_order_def by (metis atLeast_upt mset_eq_setD)

lemma refresh_domains_dom:
  "completion_order c order \<Longrightarrow>
   dom (hm_domains (refresh uni get order c)) = (\<Union>i < length (cf_blocklists c). parsed_domains uni get c i)"
  by (auto simp: refresh_def insert_lists_dom completion_order_set parsed_domains_def)

lemma refresh_allowlist_dom: "dom (hm_allowlist (refresh uni get order c)) = set (cf_allowlist c)"
  by (simp add: refresh_def)

section \<open>The control plane's interface\<close>

text \<open>
  \<open>trait BlocklistManager\<close>: a refresh builds a matcher from the configured lists and what the
  network answers, whatever order the answers come in. The matcher's own interface is a part of
  the contract.
\<close>

locale blocklist_manager = blocklist_matcher matcher_check listed allowed
  for matcher_check :: "'m \<Rightarrow> string \<Rightarrow> u8 option"
    and listed :: "'m \<Rightarrow> string set"
    and allowed :: "'m \<Rightarrow> string set" +
  fixes rebuild :: "nat list \<Rightarrow> 'c \<Rightarrow> 'm"
    and orders :: "'c \<Rightarrow> nat list \<Rightarrow> bool"
    and sources :: "'c \<Rightarrow> nat \<Rightarrow> string set"
    and n_sources :: "'c \<Rightarrow> nat"
    and allow :: "'c \<Rightarrow> string set"
  assumes listed_rebuild: "orders c ord \<Longrightarrow> listed (rebuild ord c) = (\<Union>i < n_sources c. sources c i)"
    and allowed_rebuild: "allowed (rebuild ord c) = allow c"
begin

lemma rebuild_blocks_iff:
  "orders c ord \<Longrightarrow> matcher_check (rebuild ord c) d \<noteq> None \<longleftrightarrow>
     d \<notin> allow c \<and> covered (\<Union>i < n_sources c. sources c i) d"
  by (simp only: check_blocked_iff listed_rebuild allowed_rebuild)

lemma rebuild_order_irrelevant:
  "orders c ord \<Longrightarrow> orders c ord' \<Longrightarrow>
   matcher_check (rebuild ord c) d = None \<longleftrightarrow> matcher_check (rebuild ord' c) d = None"
  by (rule check_same_sets) (simp_all only: listed_rebuild allowed_rebuild)

lemma rebuild_nothing_listed:
  "orders c ord \<Longrightarrow> (\<And>i. i < n_sources c \<Longrightarrow> sources c i = {}) \<Longrightarrow>
   matcher_check (rebuild ord c) d = None"
  using rebuild_blocks_iff [of c ord d] by (auto simp: covered_def)

end

interpretation standard_manager: blocklist_manager check
  "\<lambda>m. dom (hm_domains m)" "\<lambda>m. dom (hm_allowlist m)"
  "refresh uni get" completion_order "parsed_domains uni get"
  "\<lambda>c. length (cf_blocklists c)" "\<lambda>c. set (cf_allowlist c)"
  for uni get
  by unfold_locales (simp_all add: refresh_domains_dom refresh_allowlist_dom)

section \<open>Properties\<close>

text \<open>
  C12. After a refresh a name is blocked exactly when it is not itself on the allowlist and it lies at
  or under a domain parsed from one of the lists; in particular whether a name is blocked does not
  depend on the order in which the concurrent downloads complete.
\<close>

theorem refresh_blocks_iff:
  assumes "completion_order c order"
  shows "check (refresh uni get order c) d \<noteq> None \<longleftrightarrow>
    d \<notin> set (cf_allowlist c) \<and>
    covered (\<Union>i < length (cf_blocklists c). parsed_domains uni get c i) d"
  using assms by (rule standard_manager.rebuild_blocks_iff)

theorem refresh_blocks_iff_witness:
  "let c = config_default\<lparr>cf_blocklists := [(''b'', ''u2''), (''a'', ''u1'')]\<rparr>;
       get = (\<lambda>u. if u = ''u1'' then Inr [Inr '' Ads.COM ''] else Inl ''timeout'')
   in check (refresh (\<lambda>s. s) get [1, 0] c) ''x.ads.com'' \<noteq> None
      \<and> check (refresh (\<lambda>s. s) get [0, 1] c) ''x.ads.com'' \<noteq> None"
proof -
  let ?c = "config_default\<lparr>cf_blocklists := [(''b'', ''u2''), (''a'', ''u1'')]\<rparr>"
  let ?get = "\<lambda>u. if u = ''u1'' then Inr [Inr '' Ads.COM ''] else Inl ''timeout''"
  have o: "completion_order ?c [1, 0]" "completion_order ?c [0, 1]"
    by (simp_all add: completion_order_def upt_rec)
  have "parse_line (\<lambda>s. s) '' Ads.COM '' = Some ''ads.com''"
    by code_simp
  then have "''ads.com'' \<in> parsed_domains (\<lambda>s. s) ?get ?c 0"
    by (simp add: parsed_domains_def task_def get_blocklists_sorted_def fetch_and_parse_def)
  moreover have "''x.ads.com'' = ''x'' @ CHR ''.'' # ''ads.com''" by simp
  ultimately have "covered (\<Union>i < length (cf_blocklists ?c). parsed_domains (\<lambda>s. s) ?get ?c i) ''x.ads.com''"
    unfolding covered_def by (intro disjI2 exI [of _ "''x''"] exI [of _ "''ads.com''"]) auto
  moreover have "''x.ads.com'' \<notin> set (cf_allowlist ?c)" by (simp add: config_defaults)
  ultimately show ?thesis
    unfolding Let_def refresh_blocks_iff [OF o(1)] refresh_blocks_iff [OF o(2)] by blast
qed

text \<open>
  C28. The source a block is attributed to is real: with at most 256 lists, the source id the matcher
  returns is the position, in the sorted list of blocklists, of a list in which the name or one of
  its ancestors was parsed.
\<close>

theorem refresh_attribution:
  assumes "completion_order c order" "length (cf_blocklists c) \<le> 256"
    and "check (refresh uni get order c) d = Some i"
  shows "unat i < length (get_blocklists_sorted c)
    \<and> (\<exists>a \<in> set (ancestors d). a \<in> parsed_domains uni get c (unat i))"
proof -
  let ?m = "insert_lists (map (task uni get c) order) Map.empty"
  have "first_listed ?m (ancestors d) = Some i"
    using assms(3) by (auto simp: refresh_def check_def suffix_match_first_listed split: if_splits)
  then obtain a where a: "a \<in> set (ancestors d)" "?m a = Some i"
    using first_listed_Some by blast
  then obtain idx where idx: "idx \<in> set order" "(a, i) \<in> set (task uni get c idx)"
    using insert_lists_Some by fastforce
  then have i: "i = source_id_of idx" by (simp add: task_source)
  have "idx < length (cf_blocklists c)"
    using idx(1) completion_order_set [OF assms(1)] by blast
  with i assms(2) have "unat i = idx" "idx < length (get_blocklists_sorted c)"
    by (simp_all add: source_id_of_def unat_of_nat)
  with a idx show ?thesis
    by (auto simp: parsed_domains_def intro: rev_image_eqI)
qed

theorem refresh_attribution_witness:
  "let c = config_default\<lparr>cf_blocklists := [(''b'', ''u2''), (''a'', ''u1'')]\<rparr>;
       get = (\<lambda>u. if u = ''u2'' then Inr [Inr ''ads.com''] else Inl ''timeout'')
   in check (refresh (\<lambda>s. s) get [1, 0] c) ''x.ads.com'' = Some 1
      \<and> (\<exists>a \<in> set (ancestors ''x.ads.com''). a \<in> parsed_domains (\<lambda>s. s) get c 1)"
proof -
  let ?c = "config_default\<lparr>cf_blocklists := [(''b'', ''u2''), (''a'', ''u1'')]\<rparr>"
  let ?get = "\<lambda>u. if u = ''u2'' then Inr [Inr ''ads.com''] else Inl ''timeout''"
  have o: "completion_order ?c [1, 0]" "length (cf_blocklists ?c) \<le> 256"
    by (simp_all add: completion_order_def upt_rec)
  have p: "parse_line (\<lambda>s. s) ''ads.com'' = Some ''ads.com''" by code_simp
  have c: "check (refresh (\<lambda>s. s) ?get [1, 0] ?c) ''x.ads.com'' = Some 1"
    by (simp add: refresh_def check_def suffix_match_first_listed ancestors_def task_def p
        get_blocklists_sorted_def fetch_and_parse_def source_id_of_def config_defaults)
  from refresh_attribution [OF o c] c show ?thesis by simp
qed

text \<open>
  A refresh is not fail-safe: when every download fails the new matcher, which replaces the
  active one, blocks nothing, whatever was blocked before.
\<close>

theorem refresh_all_failed_blocks_nothing:
  assumes "completion_order c order"
    and "\<forall>entry \<in> set (cf_blocklists c). \<exists>e. get (snd entry) = Inl e"
  shows "check (refresh uni get order c) d = None"
proof (rule standard_manager.rebuild_nothing_listed [OF assms(1)])
  fix i
  assume "i < length (cf_blocklists c)"
  then have "get_blocklists_sorted c ! i \<in> set (cf_blocklists c)"
    using blocklists_sorted_mset [of c] by (metis blocklists_sorted_length mset_eq_setD nth_mem)
  with assms(2) obtain e where "get (snd (get_blocklists_sorted c ! i)) = Inl e" by blast
  then show "parsed_domains uni get c i = {}"
    by (simp add: parsed_domains_def task_def fetch_and_parse_def case_prod_beta)
qed

theorem refresh_all_failed_blocks_nothing_witness:
  "\<forall>d. check (refresh (\<lambda>s. s) (\<lambda>u. Inl ''no route'') [0] config_default) d = None"
proof
  fix d
  have "completion_order config_default [0]"
    by (simp add: completion_order_def config_defaults default_blocklists_def)
  then show "check (refresh (\<lambda>s. s) (\<lambda>u. Inl ''no route'') [0] config_default) d = None"
    by (rule refresh_all_failed_blocks_nothing) simp
qed



end
