(* ===== verification/App_State.thy ===== *)
theory App_State
  imports Dns_Types
begin

text \<open>
  \<open>src/engine/state.rs\<close>: the pause state of blocking, a read/write lock around the instant until
  which blocking is paused. The clock reading of each call is its argument \<open>now\<close>.
\<close>

section \<open>State and operations\<close>

type_synonym app_state = "instant option rwlock"

definition app_state_new :: app_state where
  "app_state_new = rw_new None"

definition is_blocking_active :: "instant \<Rightarrow> app_state \<Rightarrow> bool outcome" where
  "is_blocking_active now st =
     res_bind (rw_read st) (\<lambda>guard.
       case guard of
         Some until \<Rightarrow> if now < until then Inr False else Inr True
       | None \<Rightarrow> Inr True)"

definition pause_blocking :: "instant \<Rightarrow> duration \<Rightarrow> app_state \<Rightarrow> unit outcome \<times> app_state" where
  "pause_blocking now d st =
     rw_write (\<lambda>_. res_bind (instant_add now d) (\<lambda>t. Inr (Some t))) st"

definition resume_blocking :: "app_state \<Rightarrow> unit outcome \<times> app_state" where
  "resume_blocking st = rw_write (\<lambda>_. Inr None) st"

definition get_pause_remaining_secs :: "instant \<Rightarrow> app_state \<Rightarrow> u64 option outcome" where
  "get_pause_remaining_secs now st =
     res_bind (rw_read st) (\<lambda>guard.
       case guard of
         Some until \<Rightarrow> if until > now then Inr (Some (duration_as_secs (until - now))) else Inr None
       | None \<Rightarrow> Inr None)"

lemmas app_state_defs =
  is_blocking_active_def pause_blocking_def resume_blocking_def get_pause_remaining_secs_def

section \<open>Every branch of the operations\<close>

lemma is_blocking_active_new [simp]: "is_blocking_active now app_state_new = Inr True"
  by (simp add: is_blocking_active_def app_state_new_def rw_read_def)

lemma is_blocking_active_poisoned [simp]:
  "lk_poisoned st \<Longrightarrow> is_blocking_active now st = Inl LockPoisoned"
  by (simp add: is_blocking_active_def rw_read_def)

lemma is_blocking_active_healthy:
  "\<not> lk_poisoned st \<Longrightarrow>
   is_blocking_active now st = Inr (case lk_value st of None \<Rightarrow> True | Some until \<Rightarrow> until \<le> now)"
  by (auto simp: is_blocking_active_def rw_read_def split: option.splits)

lemma pause_blocking_healthy:
  "\<not> lk_poisoned st \<Longrightarrow>
   pause_blocking now d st =
     (if now + d < instant_limit then (Inr (), st\<lparr>lk_value := Some (now + d)\<rparr>)
      else (Inl InstantOverflow, st\<lparr>lk_poisoned := True\<rparr>))"
  by (simp add: pause_blocking_def rw_write_def instant_add_def)

lemma resume_blocking_healthy:
  "\<not> lk_poisoned st \<Longrightarrow> resume_blocking st = (Inr (), st\<lparr>lk_value := None\<rparr>)"
  by (simp add: resume_blocking_def rw_write_def)

lemma pause_remaining_healthy:
  "\<not> lk_poisoned st \<Longrightarrow>
   get_pause_remaining_secs now st =
     Inr (case lk_value st of None \<Rightarrow> None
          | Some until \<Rightarrow> if now < until then Some (duration_as_secs (until - now)) else None)"
  by (auto simp: get_pause_remaining_secs_def rw_read_def split: option.splits)

section \<open>Operations in sequence\<close>

text \<open>The calls another task can make on the shared state.\<close>

datatype pause_op = Pause instant duration | Resume

fun pause_step :: "pause_op \<Rightarrow> app_state \<Rightarrow> app_state" where
  "pause_step (Pause now d) st = snd (pause_blocking now d st)"
| "pause_step Resume st = snd (resume_blocking st)"

definition pause_run :: "pause_op list \<Rightarrow> app_state \<Rightarrow> app_state" where
  "pause_run ops st = fold pause_step ops st"

lemma pause_step_poisoned: "lk_poisoned st \<Longrightarrow> pause_step op st = st"
  by (cases op) (simp_all add: pause_blocking_def resume_blocking_def)

lemma pause_run_poisoned: "lk_poisoned st \<Longrightarrow> pause_run ops st = st"
  by (induction ops) (simp_all add: pause_run_def pause_step_poisoned)

text \<open>What a sequence of calls amounts to: the end of its last pause, if a pause is its last call.\<close>

definition pause_end :: "pause_op list \<Rightarrow> instant option" where
  "pause_end ops = (case rev ops of Pause now d # earlier \<Rightarrow> Some (now + d) | _ \<Rightarrow> None)"

fun pause_fits :: "pause_op \<Rightarrow> bool" where
  "pause_fits (Pause now d) = (now + d < instant_limit)"
| "pause_fits Resume = True"

lemma pause_run_last:
  "list_all pause_fits ops \<Longrightarrow>
   pause_run ops app_state_new = \<lparr>lk_value = pause_end ops, lk_poisoned = False\<rparr>"
proof (induction ops rule: rev_induct)
  case Nil
  then show ?case by (simp add: pause_run_def pause_end_def app_state_new_def rw_new_def)
next
  case (snoc op ops)
  then have "pause_run ops app_state_new = \<lparr>lk_value = pause_end ops, lk_poisoned = False\<rparr>" by simp
  then show ?case
    using snoc.prems
    by (cases op) (simp_all add: pause_run_def pause_end_def pause_blocking_healthy resume_blocking_healthy)
qed

section \<open>Properties\<close>

text \<open>
  C17. Only the last call counts. After any sequence of pauses (none beyond the range of the clock)
  and resumes, blocking is inactive exactly before the end of the last call if that was a pause,
  and active at any time if it was a resume or there was none; the remaining time reported is the
  whole seconds left of that pause, and nothing when blocking is active.
\<close>

theorem pause_window:
  assumes "list_all pause_fits ops"
  shows "is_blocking_active t (pause_run ops app_state_new) =
      Inr (case pause_end ops of None \<Rightarrow> True | Some e \<Rightarrow> e \<le> t)
    \<and> get_pause_remaining_secs t (pause_run ops app_state_new) =
      Inr (case pause_end ops of None \<Rightarrow> None
           | Some e \<Rightarrow> if t < e then Some (duration_as_secs (e - t)) else None)"
proof -
  have "pause_run ops app_state_new = \<lparr>lk_value = pause_end ops, lk_poisoned = False\<rparr>"
    using assms by (rule pause_run_last)
  then show ?thesis
    by (simp add: is_blocking_active_healthy pause_remaining_healthy split: option.split)
qed

theorem pause_window_witness:
  "let st = pause_run [Pause 7 (5 * ns_per_sec), Resume, Pause 100 200] app_state_new in
   is_blocking_active 299 st = Inr False \<and> is_blocking_active 300 st = Inr True"
proof -
  have fits: "list_all pause_fits [Pause 7 (5 * ns_per_sec), Resume, Pause 100 200]"
    by (simp add: instant_limit_def ns_per_sec_def)
  note window = pause_window [OF fits]
  from window [where t = 299] window [where t = 300] show ?thesis
    by (simp add: Let_def pause_end_def)
qed

text \<open>
  What \<open>/api/status\<close> reports is consistent: at one instant, blocking is reported active exactly
  when no remaining pause is; if the two readings are taken at \<open>t1\<close> and then \<open>t2\<close>, a reported
  remaining pause still means blocking was reported paused, and the remaining seconds never
  exceed what is left of the pause.
\<close>

theorem status_consistent:
  assumes "\<not> lk_poisoned st" "t1 \<le> t2"
  shows "(is_blocking_active t1 st = Inr True \<longleftrightarrow> get_pause_remaining_secs t1 st = Inr None)
    \<and> (\<forall>s. get_pause_remaining_secs t2 st = Inr (Some s) \<longrightarrow>
         is_blocking_active t1 st = Inr False
         \<and> (\<exists>until. lk_value st = Some until \<and> t2 < until \<and> unat s * ns_per_sec \<le> until - t2))"
proof -
  have secs: "unat (duration_as_secs d) * ns_per_sec \<le> d" for d
  proof -
    have "unat (duration_as_secs d) \<le> d div ns_per_sec"
      by (simp add: duration_as_secs_def unat_of_nat)
    then have "unat (duration_as_secs d) * ns_per_sec \<le> (d div ns_per_sec) * ns_per_sec"
      by (rule mult_le_mono1)
    then show ?thesis by (meson div_times_less_eq_dividend le_trans)
  qed
  show ?thesis
    using assms secs
    by (auto simp: is_blocking_active_healthy pause_remaining_healthy split: option.splits if_splits)
qed

theorem status_consistent_witness:
  "let st = snd (pause_blocking 0 (5 * ns_per_sec) app_state_new) in
   get_pause_remaining_secs 1 st = Inr (Some 4) \<and> is_blocking_active 0 st = Inr False"
proof -
  let ?st = "snd (pause_blocking 0 (5 * ns_per_sec) app_state_new)"
  have st: "?st = \<lparr>lk_value = Some (5 * ns_per_sec), lk_poisoned = False\<rparr>"
    by (simp add: pause_blocking_healthy app_state_new_def rw_new_def instant_limit_def ns_per_sec_def)
  have "\<not> lk_poisoned ?st" "(0 :: nat) \<le> 1" by (simp_all add: st)
  note cons = status_consistent [OF this]
  have rem: "get_pause_remaining_secs 1 ?st = Inr (Some 4)"
    unfolding st by (simp add: pause_remaining_healthy duration_as_secs_def ns_per_sec_def)
  with cons have "is_blocking_active 0 ?st = Inr False" by blast
  with rem show ?thesis by simp
qed

text \<open>
  A pause too long for the clock's range panics while the write guard is held, so it poisons
  the lock: from then on every check whether blocking is active panics, and no later pause or
  resume repairs it.
\<close>

theorem pause_overflow_poisons:
  assumes "\<not> lk_poisoned st" "instant_limit \<le> now + d"
  shows "fst (pause_blocking now d st) = Inl InstantOverflow
    \<and> is_blocking_active t (pause_run ops (snd (pause_blocking now d st))) = Inl LockPoisoned"
  using assms by (simp add: pause_blocking_healthy pause_run_poisoned)

theorem pause_overflow_poisons_witness:
  "\<forall>t. is_blocking_active t (pause_run [Resume, Pause 0 1, Resume]
     (snd (pause_blocking 0 (duration_from_secs 9223372036854775860) app_state_new)))
   = Inl LockPoisoned"
proof -
  have "\<not> lk_poisoned app_state_new"
    "instant_limit \<le> 0 + duration_from_secs 9223372036854775860"
    by (simp_all add: app_state_new_def instant_limit_def duration_from_secs_def ns_per_sec_def)
  from pause_overflow_poisons [OF this] show ?thesis by blast
qed

end
