(* ===== verification/Db_Model.thy ===== *)
theory Db_Model
  imports Stats_Model
begin

text \<open>
  \<open>src/db.rs\<close>: the SQLite log, as the table of its rows and the meaning of the SQL statements in the
  source.

  Parameters: \<open>fails\<close> says which statements the engine refuses; \<open>scan\<close> is the order in which it
  reads a table (a permutation: SQL leaves the order of equal keys open); \<open>show_ip\<close>, \<open>parse_ip\<close>,
  \<open>show_rt\<close>, \<open>parse_rt\<close> are the texts of addresses and record types.
\<close>

section \<open>Tables\<close>

record db_row =
  row_id :: nat
  row_timestamp :: int
  row_client_ip :: string
  row_domain :: string
  row_query_type :: string
  row_action :: string
  row_blocklist_name :: "string option"
  row_upstream :: "string option"
  row_latency_ms :: int
  row_ttl_remaining :: "int option"

record db =
  db_rows :: "db_row list option"
  db_has_ttl_column :: bool
  db_indices :: "string list"
  db_next_id :: nat

datatype stmt =
    CreateTable
  | TableInfo
  | AddColumn
  | CreateIndex string
  | InsertRow
  | DeleteOld

definition db_empty :: db where
  "db_empty = \<lparr>db_rows = None, db_has_ttl_column = False, db_indices = [], db_next_id = 1\<rparr>"

text \<open>A table a statement can name: it exists and, for the log's columns, is migrated.\<close>

definition table_ready :: "db \<Rightarrow> bool" where
  "table_ready d \<longleftrightarrow> db_rows d \<noteq> None \<and> db_has_ttl_column d"

definition rows_of :: "db \<Rightarrow> db_row list" where
  "rows_of d = (case db_rows d of None \<Rightarrow> [] | Some rs \<Rightarrow> rs)"

section \<open>Initialisation and migration\<close>

definition create_table :: "db \<Rightarrow> db" where
  "create_table d =
     (case db_rows d of
        None \<Rightarrow> d\<lparr>db_rows := Some [], db_has_ttl_column := True\<rparr>
      | Some _ \<Rightarrow> d)"

fun create_indices :: "(stmt \<Rightarrow> bool) \<Rightarrow> string list \<Rightarrow> db \<Rightarrow> (string + unit) \<times> db" where
  "create_indices fails [] d = (Inr (), d)"
| "create_indices fails (i # is) d =
     (if fails (CreateIndex i) then (Inl ''create index'', d)
      else create_indices fails is (d\<lparr>db_indices := List.insert i (db_indices d)\<rparr>))"

definition log_indices :: "string list" where
  "log_indices = [''idx_logs_timestamp'', ''idx_logs_domain'', ''idx_logs_client_ip'', ''idx_logs_action'']"

definition initialize :: "(stmt \<Rightarrow> bool) \<Rightarrow> db \<Rightarrow> (string + unit) \<times> db" where
  "initialize fails d =
     (if fails CreateTable then (Inl ''create table'', d)
      else
        let d = create_table d;
            column_exists = (\<not> fails TableInfo \<and> db_has_ttl_column d);
            d = (if \<not> column_exists \<and> \<not> fails AddColumn \<and> \<not> db_has_ttl_column d
                 then d\<lparr>db_has_ttl_column := True\<rparr> else d)
        in create_indices fails log_indices d)"

section \<open>Writing\<close>

definition row_of_entry :: "(ip \<Rightarrow> string) \<Rightarrow> (rtype \<Rightarrow> string) \<Rightarrow> nat \<Rightarrow> int \<Rightarrow> query_log_entry
    \<Rightarrow> string option \<Rightarrow> db_row" where
  "row_of_entry show_ip show_rt i timestamp e blocklist =
     \<lparr>row_id = i, row_timestamp = timestamp, row_client_ip = show_ip (le_client_ip e),
      row_domain = le_domain e, row_query_type = show_rt (le_query_type e),
      row_action = show_action (le_action e), row_blocklist_name = blocklist,
      row_upstream = le_upstream e, row_latency_ms = u64_as_i64 (le_latency_ms e),
      row_ttl_remaining = map_option u64_as_i64 (le_ttl_remaining e)\<rparr>"

definition insert_log :: "(stmt \<Rightarrow> bool) \<Rightarrow> (ip \<Rightarrow> string) \<Rightarrow> (rtype \<Rightarrow> string) \<Rightarrow> systemtime
    \<Rightarrow> query_log_entry \<Rightarrow> string option \<Rightarrow> db \<Rightarrow> (string + unit) outcome \<times> db" where
  "insert_log fails show_ip show_rt wall e blocklist d =
     (case unix_secs wall of
        Inl p \<Rightarrow> (Inl p, d)
      | Inr secs \<Rightarrow>
          if \<not> table_ready d \<or> fails InsertRow then (Inr (Inl ''insert''), d)
          else (Inr (Inr ()), d\<lparr>db_rows := Some (rows_of d @
                 [row_of_entry show_ip show_rt (db_next_id d) (u64_as_i64 secs) e blocklist]),
               db_next_id := db_next_id d + 1\<rparr>))"

definition cutoff_of :: "u64 \<Rightarrow> u64 \<Rightarrow> int" where
  "cutoff_of secs retention_hours = i64_wrap (u64_as_i64 secs - u64_as_i64 (retention_hours * 3600))"

definition prune_logs :: "(stmt \<Rightarrow> bool) \<Rightarrow> systemtime \<Rightarrow> u64 \<Rightarrow> db \<Rightarrow> (string + unit) outcome \<times> db" where
  "prune_logs fails wall retention_hours d =
     (case unix_secs wall of
        Inl p \<Rightarrow> (Inl p, d)
      | Inr secs \<Rightarrow>
          let cutoff = cutoff_of secs retention_hours in
          if db_rows d = None \<or> fails DeleteOld then (Inr (Inl ''delete''), d)
          else (Inr (Inr ()), d\<lparr>db_rows := Some (filter (\<lambda>r. \<not> row_timestamp r < cutoff) (rows_of d))\<rparr>))"

section \<open>Opening\<close>

text \<open>What the engine answers when a connection is opened and its two settings are made.\<close>

record connection_env =
  cn_open :: "string \<Rightarrow> string + unit"
  cn_journal_mode :: "string + unit"
  cn_busy_timeout :: "string + unit"

definition open_connection :: "connection_env \<Rightarrow> string \<Rightarrow> string + unit" where
  "open_connection cn db_path =
     res_bind (cn_open cn db_path) (\<lambda>_. res_bind (cn_journal_mode cn) (\<lambda>_. cn_busy_timeout cn))"

text \<open>A connection is the file it is to: both ends see the same tables.\<close>

definition db_client_new :: "connection_env \<Rightarrow> (string \<Rightarrow> db) \<Rightarrow> string \<Rightarrow> string + db" where
  "db_client_new cn file db_path = res_bind (open_connection cn db_path) (\<lambda>_. Inr (file db_path))"

definition log_writer_new :: "connection_env \<Rightarrow> db \<Rightarrow> string \<Rightarrow> string + db" where
  "log_writer_new cn d db_path = res_bind (open_connection cn db_path) (\<lambda>_. Inr d)"

section \<open>Reading\<close>

definition parse_action :: "string \<Rightarrow> query_log_action" where
  "parse_action s =
     (if s = ''Allowed'' then Allowed
      else if s = ''Blocked'' then Blocked
      else if s = ''Cached'' then Cached
      else if s = ''Forwarded'' then Forwarded
      else if s = ''Local'' then Local
      else Allowed)"

definition entry_of_row :: "(string \<Rightarrow> ip option) \<Rightarrow> (string \<Rightarrow> rtype option) \<Rightarrow> db_row \<Rightarrow> query_log_entry" where
  "entry_of_row parse_ip parse_rt r =
     \<lparr>le_client_ip = (case parse_ip (row_client_ip r) of Some a \<Rightarrow> a | None \<Rightarrow> V4 0),
      le_domain = row_domain r,
      le_query_type = (case parse_rt (row_query_type r) of Some t \<Rightarrow> t | None \<Rightarrow> RT_A),
      le_action = parse_action (row_action r),
      le_source_id = None,
      le_upstream = row_upstream r,
      le_latency_ms = i64_as_u64 (row_latency_ms r),
      le_ttl_remaining = map_option i64_as_u64 (row_ttl_remaining r)\<rparr>"

definition sql_limit :: "int \<Rightarrow> 'a list \<Rightarrow> 'a list" where
  "sql_limit n xs = (if n < 0 then xs else take (nat n) xs)"

text \<open>
  The client's connection is behind a mutex, and a panic while it is held poisons it: the readers
  take and return whether it is poisoned.
\<close>

definition get_logs :: "(db_row list \<Rightarrow> db_row list) \<Rightarrow> (string \<Rightarrow> ip option) \<Rightarrow> (string \<Rightarrow> rtype option)
    \<Rightarrow> u64 \<Rightarrow> db \<Rightarrow> bool \<Rightarrow> query_log_entry list outcome \<times> bool" where
  "get_logs scan parse_ip parse_rt limit d poisoned =
     (if poisoned then (Inl LockPoisoned, True)
      else if \<not> table_ready d then (Inl (UnwrapFailed ''prepare''), True)
      else (Inr (map (entry_of_row parse_ip parse_rt)
                  (sql_limit (u64_as_i64 limit) (sort_by_desc row_timestamp (scan (rows_of d))))), False))"

definition count_rows :: "(db_row \<Rightarrow> bool) \<Rightarrow> db \<Rightarrow> u64" where
  "count_rows P d = i64_as_u64 (int (length (filter P (rows_of d))))"

definition group_counts :: "(db_row \<Rightarrow> string) \<Rightarrow> db_row list \<Rightarrow> (string \<times> nat) list" where
  "group_counts key rows = map (\<lambda>k. (k, length (filter (\<lambda>r. key r = k) rows))) (remdups (map key rows))"

definition get_top :: "(db_row list \<Rightarrow> db_row list) \<Rightarrow> (db_row \<Rightarrow> string) \<Rightarrow> (db_row \<Rightarrow> bool) \<Rightarrow> db \<Rightarrow> top_item list" where
  "get_top scan key P d =
     map (\<lambda>(k, c). \<lparr>ti_name = k, ti_count = i64_as_u64 (int c)\<rparr>)
       (sql_limit 5 (sort_by_desc snd (group_counts key (filter P (scan (rows_of d))))))"

fun min_timestamp :: "db_row list \<Rightarrow> int option" where
  "min_timestamp [] = None"
| "min_timestamp (r # rs) =
     (case min_timestamp rs of None \<Rightarrow> Some (row_timestamp r) | Some t \<Rightarrow> Some (min (row_timestamp r) t))"

fun max_timestamp :: "db_row list \<Rightarrow> int option" where
  "max_timestamp [] = None"
| "max_timestamp (r # rs) =
     (case max_timestamp rs of None \<Rightarrow> Some (row_timestamp r) | Some t \<Rightarrow> Some (max (row_timestamp r) t))"

definition is_blocked_row :: "db_row \<Rightarrow> bool" where
  "is_blocked_row r \<longleftrightarrow> row_action r = ''Blocked''"

definition is_cached_row :: "db_row \<Rightarrow> bool" where
  "is_cached_row r \<longleftrightarrow> row_action r = ''Cached''"

definition get_stats :: "(db_row list \<Rightarrow> db_row list) \<Rightarrow> systemtime \<Rightarrow> db \<Rightarrow> bool
    \<Rightarrow> stats_snapshot outcome \<times> bool" where
  "get_stats scan wall d poisoned =
     (if poisoned then (Inl LockPoisoned, True)
      else if db_rows d = None then (Inl (UnwrapFailed ''prepare''), True)
      else
        case (case max_timestamp (rows_of d) of
                Some t \<Rightarrow> Inr (i64_as_u64 t)
              | None \<Rightarrow> unix_secs wall) of
          Inl p \<Rightarrow> (Inl p, True)
        | Inr updated_at \<Rightarrow>
            (Inr \<lparr>sn_total_queries = count_rows (\<lambda>_. True) d,
                  sn_blocked_queries = count_rows is_blocked_row d,
                  sn_cache_hits = count_rows is_cached_row d,
                  sn_top_clients = get_top scan row_client_ip (\<lambda>_. True) d,
                  sn_top_blocked_clients = get_top scan row_client_ip is_blocked_row d,
                  sn_top_domains = get_top scan row_domain (\<lambda>_. True) d,
                  sn_top_blocked_domains = get_top scan row_domain is_blocked_row d,
                  sn_started_at = (case min_timestamp (rows_of d) of Some t \<Rightarrow> i64_as_u64 t | None \<Rightarrow> 0),
                  sn_updated_at = updated_at\<rparr>, False))"

section \<open>Lemmas\<close>

definition is_scan :: "(db_row list \<Rightarrow> db_row list) \<Rightarrow> bool" where
  "is_scan scan \<longleftrightarrow> (\<forall>rs. mset (scan rs) = mset rs)"

definition text_roundtrip :: "('a \<Rightarrow> string) \<Rightarrow> (string \<Rightarrow> 'a option) \<Rightarrow> bool" where
  "text_roundtrip show_it parse_it \<longleftrightarrow> (\<forall>x. parse_it (show_it x) = Some x)"

text \<open>
  One instance of the text parameters, a tag and a decimal number, for the examples.
\<close>

definition plain_show_ip :: "ip \<Rightarrow> string" where
  "plain_show_ip a = (case a of V4 w \<Rightarrow> CHR ''4'' # dec (unat w) | V6 w \<Rightarrow> CHR ''6'' # dec (unat w))"

definition plain_parse_ip :: "string \<Rightarrow> ip option" where
  "plain_parse_ip s =
     (if s \<noteq> [] \<and> hd s = CHR ''4'' then Some (V4 (of_nat (undec (tl s))))
      else if s \<noteq> [] \<and> hd s = CHR ''6'' then Some (V6 (of_nat (undec (tl s)))) else None)"

definition plain_show_rt :: "rtype \<Rightarrow> string" where
  "plain_show_rt t = (case t of RT_A \<Rightarrow> ''A'' | RT_AAAA \<Rightarrow> ''AAAA'' | RT_Other w \<Rightarrow> CHR ''T'' # dec (unat w))"

definition plain_parse_rt :: "string \<Rightarrow> rtype option" where
  "plain_parse_rt s =
     (if s = ''A'' then Some RT_A else if s = ''AAAA'' then Some RT_AAAA
      else if s \<noteq> [] \<and> hd s = CHR ''T'' then Some (RT_Other (of_nat (undec (tl s)))) else None)"

lemma plain_texts:
  "text_roundtrip plain_show_ip plain_parse_ip" "text_roundtrip plain_show_rt plain_parse_rt"
  by (auto simp: text_roundtrip_def undec_dec plain_show_ip_def plain_parse_ip_def plain_show_rt_def
      plain_parse_rt_def split: ip.splits rtype.splits)

lemma parse_show_action [simp]: "parse_action (show_action a) = a"
  by (cases a) (simp_all add: parse_action_def)

lemma entry_of_row_of_entry:
  "text_roundtrip show_ip parse_ip \<Longrightarrow> text_roundtrip show_rt parse_rt \<Longrightarrow>
   entry_of_row parse_ip parse_rt (row_of_entry show_ip show_rt i t e b) = e\<lparr>le_source_id := None\<rparr>"
  by (cases e) (auto simp: entry_of_row_def row_of_entry_def text_roundtrip_def option.map_comp
      comp_def option.map_ident)

lemma create_indices_rows:
  "create_indices fails is d = (res, d') \<Longrightarrow>
   db_rows d' = db_rows d \<and> db_has_ttl_column d' = db_has_ttl_column d \<and> db_next_id d' = db_next_id d"
  by (induction "is" arbitrary: d) (auto split: if_splits)

lemma create_indices_ok:
  "(\<And>i. i \<in> set is \<Longrightarrow> \<not> fails (CreateIndex i)) \<Longrightarrow>
   create_indices fails is d = (Inr (), d\<lparr>db_indices := fold List.insert is (db_indices d)\<rparr>)"
  by (induction "is" arbitrary: d) simp_all

lemma rows_of_create_table [simp]: "rows_of (create_table d) = rows_of d"
  by (simp add: create_table_def rows_of_def split: option.splits)

lemma rows_of_updates [simp]:
  "rows_of (d\<lparr>db_has_ttl_column := b\<rparr>) = rows_of d" "rows_of (d\<lparr>db_indices := is\<rparr>) = rows_of d"
  by (simp_all add: rows_of_def)

lemma fold_insert_id: "set is \<subseteq> set xs \<Longrightarrow> fold List.insert is xs = xs"
  by (induction "is" arbitrary: xs) simp_all

lemma fold_insert_set: "set (fold List.insert is xs) = set is \<union> set xs"
  by (induction "is" arbitrary: xs) auto

lemma insert_log_rows:
  "insert_log fails show_ip show_rt wall e b d = (Inr (Inr ()), d') \<Longrightarrow>
   \<exists>secs. unix_secs wall = Inr secs \<and> table_ready d' \<and>
     rows_of d' = rows_of d @ [row_of_entry show_ip show_rt (db_next_id d) (u64_as_i64 secs) e b]"
  by (auto simp: insert_log_def table_ready_def rows_of_def split: sum.splits if_splits)

text \<open>A run of inserts, each at its own time and with the blocklist name the writer found.\<close>

fun insert_all :: "(stmt \<Rightarrow> bool) \<Rightarrow> (ip \<Rightarrow> string) \<Rightarrow> (rtype \<Rightarrow> string)
    \<Rightarrow> (systemtime \<times> query_log_entry \<times> string option) list \<Rightarrow> db \<Rightarrow> db" where
  "insert_all fails show_ip show_rt [] d = d"
| "insert_all fails show_ip show_rt ((wall, e, b) # es) d =
     insert_all fails show_ip show_rt es (snd (insert_log fails show_ip show_rt wall e b d))"

lemma insert_log_ready:
  assumes "table_ready d" "\<not> fails InsertRow" "0 \<le> wall"
  shows "table_ready (snd (insert_log fails show_ip show_rt wall e b d))
    \<and> rows_of (snd (insert_log fails show_ip show_rt wall e b d)) = rows_of d @
        [row_of_entry show_ip show_rt (db_next_id d)
          (u64_as_i64 (of_nat (nat wall div ns_per_sec))) e b]"
  using assms by (simp add: insert_log_def unix_secs_def table_ready_def rows_of_def)

definition stamp :: "systemtime \<Rightarrow> int" where
  "stamp wall = u64_as_i64 (of_nat (nat wall div ns_per_sec))"

text \<open>Every view \<open>f\<close> of a row that does not look at its id is that of what was inserted.\<close>

lemma insert_all_view:
  assumes "table_ready d" "\<not> fails InsertRow" "\<forall>(wall, e, b) \<in> set es. 0 \<le> wall"
    and "\<And>i t e b. f (row_of_entry show_ip show_rt i t e b) = g t e b"
  shows "table_ready (insert_all fails show_ip show_rt es d)
    \<and> map f (rows_of (insert_all fails show_ip show_rt es d)) =
       map f (rows_of d) @ map (\<lambda>(wall, e, b). g (stamp wall) e b) es"
  using assms(1,3)
proof (induction es arbitrary: d)
  case (Cons x es)
  obtain wall e b where x: "x = (wall, e, b)" by (metis prod_cases3)
  with Cons.prems have w: "0 \<le> wall" by simp
  note step = insert_log_ready [of d fails wall show_ip show_rt e b, OF Cons.prems(1) assms(2) w]
  with Cons.IH [of "snd (insert_log fails show_ip show_rt wall e b d)"] Cons.prems show ?case
    by (simp add: x assms(4) stamp_def)
qed simp

lemma insert_all_entries:
  assumes "table_ready d" "\<not> fails InsertRow" "\<forall>(wall, e, b) \<in> set es. 0 \<le> wall"
    and "text_roundtrip show_ip parse_ip" "text_roundtrip show_rt parse_rt"
  shows "table_ready (insert_all fails show_ip show_rt es d)
    \<and> map (entry_of_row parse_ip parse_rt) (rows_of (insert_all fails show_ip show_rt es d)) =
       map (entry_of_row parse_ip parse_rt) (rows_of d)
         @ map (\<lambda>(wall, e, b). e\<lparr>le_source_id := None\<rparr>) es"
  using assms(1-3) entry_of_row_of_entry [OF assms(4,5)]
  by (rule insert_all_view [where g = "\<lambda>t e b. e\<lparr>le_source_id := None\<rparr>"])

lemma group_counts_keys: "distinct (map fst (group_counts key rows))"
  by (simp add: group_counts_def comp_def)

lemma group_counts_count:
  "(k, c) \<in> set (group_counts key rows) \<Longrightarrow> c = count (mset (map key rows)) k"
proof -
  have "length (filter (\<lambda>r. key r = k) rows) = count (mset (map key rows)) k" for k
    by (induction rows) simp_all
  then show "(k, c) \<in> set (group_counts key rows) \<Longrightarrow> ?thesis"
    by (auto simp: group_counts_def)
qed

lemma insert_all_projection:
  assumes "table_ready d" "\<not> fails InsertRow" "\<forall>(wall, e, b) \<in> set es. 0 \<le> wall"
  shows "table_ready (insert_all fails show_ip show_rt es d)
    \<and> map (\<lambda>r. (row_client_ip r, row_action r)) (rows_of (insert_all fails show_ip show_rt es d)) =
       map (\<lambda>r. (row_client_ip r, row_action r)) (rows_of d)
         @ map (\<lambda>(wall, e, b). (show_ip (le_client_ip e), show_action (le_action e))) es"
  using assms
  by (rule insert_all_view [where g = "\<lambda>t e b. (show_ip (le_client_ip e), show_action (le_action e))"])
    (simp add: row_of_entry_def)

lemma insert_all_stamps:
  assumes "table_ready d" "\<not> fails InsertRow" "\<forall>(wall, e, b) \<in> set es. 0 \<le> wall"
  shows "map row_timestamp (rows_of (insert_all fails show_ip show_rt es d)) =
    map row_timestamp (rows_of d) @ map (\<lambda>(wall, e, b). stamp wall) es"
proof -
  have "table_ready (insert_all fails show_ip show_rt es d)
    \<and> map row_timestamp (rows_of (insert_all fails show_ip show_rt es d)) =
      map row_timestamp (rows_of d) @ map (\<lambda>(wall, e, b). stamp wall) es"
    using assms by (rule insert_all_view [where g = "\<lambda>t e b. t"]) (simp add: row_of_entry_def)
  then show ?thesis ..
qed

lemma get_top_items:
  assumes "is_scan scan" "item \<in> set (get_top scan key P d)"
  shows "ti_count item = of_nat (count (mset (map key (filter P (rows_of d)))) (ti_name item))"
proof -
  let ?g = "group_counts key (filter P (scan (rows_of d)))"
  obtain k c where kc: "(k, c) \<in> set (sql_limit 5 (sort_by_desc snd ?g))"
    "item = \<lparr>ti_name = k, ti_count = i64_as_u64 (int c)\<rparr>"
    using assms(2) by (auto simp: get_top_def)
  then have "(k, c) \<in> set ?g"
    by (auto simp: sql_limit_def dest: in_set_takeD)
  then have "c = count (mset (map key (filter P (scan (rows_of d))))) k"
    by (rule group_counts_count)
  also have "mset (map key (filter P (scan (rows_of d)))) = mset (map key (filter P (rows_of d)))"
    using assms(1) by (simp add: is_scan_def)
  finally show ?thesis using kc(2) by (simp add: i64_as_u64_def)
qed

lemma length_get_top: "length (get_top scan key P d) \<le> 5"
  by (simp add: get_top_def sql_limit_def)

section \<open>Properties\<close>



text \<open>
  Initialising never loses a log: whatever statements fail, the rows and their order stay; when
  none fails the table is there with its lifetime column (migrating an older table) and the four
  indices, and initialising again changes nothing.
\<close>

theorem initialize_safe_idempotent:
  "rows_of (snd (initialize fails d)) = rows_of d
   \<and> fst (initialize (\<lambda>_. False) d) = Inr ()
   \<and> table_ready (snd (initialize (\<lambda>_. False) d))
   \<and> set log_indices \<subseteq> set (db_indices (snd (initialize (\<lambda>_. False) d)))
   \<and> snd (initialize (\<lambda>_. False) (snd (initialize (\<lambda>_. False) d))) = snd (initialize (\<lambda>_. False) d)"
proof -
  have keep: "rows_of (snd (create_indices fails is d')) = rows_of d'" for "is" d'
    using create_indices_rows [of fails "is" d'] by (metis prod.collapse rows_of_def)
  have "rows_of (snd (initialize fails d)) = rows_of d"
    by (simp add: initialize_def Let_def keep)
  let ?d = "create_table d"
  let ?m = "?d\<lparr>db_has_ttl_column := True\<rparr>"
  have rows: "db_rows ?d \<noteq> None" by (simp add: create_table_def split: option.splits)
  have ok: "create_indices (\<lambda>_. False) log_indices d' =
      (Inr (), d'\<lparr>db_indices := fold List.insert log_indices (db_indices d')\<rparr>)" for d'
    by (rule create_indices_ok) simp
  have init: "initialize (\<lambda>_. False) d =
      (Inr (), ?m\<lparr>db_indices := fold List.insert log_indices (db_indices ?d)\<rparr>)"
    by (simp add: initialize_def Let_def ok)
  let ?r = "?m\<lparr>db_indices := fold List.insert log_indices (db_indices ?d)\<rparr>"
  have "create_table ?r = ?r" using rows by (auto simp: create_table_def split: option.splits)
  moreover have "fold List.insert log_indices (db_indices ?r) = db_indices ?r"
    by (rule fold_insert_id) (simp add: fold_insert_set)
  ultimately have "snd (initialize (\<lambda>_. False) ?r) = ?r"
    by (simp add: initialize_def Let_def ok)
  with \<open>rows_of (snd (initialize fails d)) = rows_of d\<close> rows init show ?thesis
    by (simp add: table_ready_def fold_insert_set)
qed

text \<open>
  C24. Pruning is exact: while the retention fits (in particular for the default of a week), it keeps
  precisely the rows at most \<open>retention_hours\<close> hours old, in their order.
\<close>

theorem prune_exact:
  assumes "unix_secs wall = Inr secs" "unat secs < 2 ^ 63" "unat hours * 3600 < 2 ^ 63"
    and "db_rows d \<noteq> None" "\<not> fails DeleteOld"
  shows "fst (prune_logs fails wall hours d) = Inr (Inr ())
    \<and> rows_of (snd (prune_logs fails wall hours d)) =
        filter (\<lambda>r. int (unat secs) - int (unat hours) * 3600 \<le> row_timestamp r) (rows_of d)"
proof -
  have "unat (hours * 3600) = unat hours * 3600"
    using assms(3) by (simp add: unat_word_ariths)
  then have h: "u64_as_i64 (hours * 3600) = int (unat hours * 3600)"
    using u64_as_i64_small [of "hours * 3600"] assms(3) by metis
  have "cutoff_of secs hours = int (unat secs) - int (unat hours * 3600)"
    unfolding cutoff_of_def h u64_as_i64_small [OF assms(2)]
    using assms(2,3) by (rule i64_wrap_diff)
  then show ?thesis
    using assms by (simp add: prune_logs_def Let_def rows_of_def not_less)
qed

theorem prune_exact_witness:
  "let row = \<lambda>i t. \<lparr>row_id = i, row_timestamp = t, row_client_ip = [], row_domain = [],
        row_query_type = [], row_action = [], row_blocklist_name = None, row_upstream = None,
        row_latency_ms = 0, row_ttl_remaining = None\<rparr>;
      d = \<lparr>db_rows = Some [row 1 100, row 2 5000], db_has_ttl_column = True, db_indices = [], db_next_id = 3\<rparr>
   in map row_id (rows_of (snd (prune_logs (\<lambda>_. False) (7200 * 10 ^ 9) 1 d))) = [2]"
proof -
  let ?row = "\<lambda>i t. \<lparr>row_id = i, row_timestamp = t, row_client_ip = [], row_domain = [],
        row_query_type = [], row_action = [], row_blocklist_name = None, row_upstream = None,
        row_latency_ms = 0, row_ttl_remaining = None\<rparr>"
  let ?d = "\<lparr>db_rows = Some [?row 1 100, ?row 2 5000], db_has_ttl_column = True, db_indices = [], db_next_id = 3\<rparr>"
  have "unix_secs (7200 * 10 ^ 9) = Inr 7200"
    by (simp add: unix_secs_def ns_per_sec_def)
  from prune_exact [of _ 7200 1 ?d "\<lambda>_. False", OF this] show ?thesis
    by (simp add: rows_of_def)
qed

text \<open>
  A retention too long to count in seconds prunes everything: with the largest value a TOML
  integer can hold (a natural way to ask for no pruning) the product wraps around, the cutoff lies
  an hour in the future, and every row logged so far is deleted.
\<close>

theorem prune_overflow_deletes_all:
  assumes "unix_secs wall = Inr secs" "unat secs + 3600 < 2 ^ 63"
    and "db_rows d \<noteq> None" "\<not> fails DeleteOld"
    and "\<forall>r \<in> set (rows_of d). row_timestamp r \<le> int (unat secs)"
  shows "rows_of (snd (prune_logs fails wall 9223372036854775807 d)) = []"
proof -
  have "u64_as_i64 (9223372036854775807 * 3600) = - 3600"
    by (simp add: u64_as_i64_def)
  moreover have "u64_as_i64 secs = int (unat secs)"
    using assms(2) by (intro u64_as_i64_small) simp
  ultimately have "cutoff_of secs 9223372036854775807 = i64_wrap (int (unat secs + 3600))"
    by (simp only: cutoff_of_def) simp
  also have "\<dots> = int (unat secs + 3600)"
    using assms(2) by (rule i64_wrap_int)
  finally show ?thesis
    using assms by (auto simp: prune_logs_def Let_def rows_of_def filter_empty_conv)
qed

theorem prune_overflow_deletes_all_witness:
  "let d = \<lparr>db_rows = Some [\<lparr>row_id = 1, row_timestamp = 7200, row_client_ip = [], row_domain = [],
        row_query_type = [], row_action = [], row_blocklist_name = None, row_upstream = None,
        row_latency_ms = 0, row_ttl_remaining = None\<rparr>],
        db_has_ttl_column = True, db_indices = [], db_next_id = 2\<rparr>
   in rows_of (snd (prune_logs (\<lambda>_. False) (7200 * 10 ^ 9) 9223372036854775807 d)) = []"
proof -
  have "unix_secs (7200 * 10 ^ 9) = Inr 7200"
    by (simp add: unix_secs_def ns_per_sec_def)
  from prune_overflow_deletes_all [of _ 7200 _ "\<lambda>_. False", OF this] show ?thesis
    unfolding Let_def by (simp add: rows_of_def)
qed



end
