(* ===== verification/Log_Sinks.thy ===== *)
theory Log_Sinks
  imports Config_Model Db_Model
begin

text \<open>
  \<open>src/logger/console_sink.rs\<close>, \<open>memory_sink.rs\<close>, \<open>sqlite_sink.rs\<close> and the trait \<open>QueryLogSink\<close> of
  \<open>src/logger/types.rs\<close>: the three destinations of a log entry, and the contract they share.

  \<open>show_ip\<close> and \<open>show_rt\<close> are the texts of addresses and record types, \<open>fails\<close> the statements the
  database refuses. The console is the list of the lines written to it.
\<close>

section \<open>The console\<close>

text \<open>
  A structured event carries its fields; those the source prints in debug form are kept as the
  values themselves.
\<close>

datatype console_line =
    JsonEvent (ev_client: string) (ev_domain: string) (ev_type: string) (ev_action: query_log_action)
      (ev_src_id: "u8 option") (ev_src_name: "string option") (ev_upstream: "string option")
      (ev_lat: u64) (ev_ttl: "u64 option")
  | TextLine string

record console_sink =
  cs_config :: logging_config
  cs_blocklist_names :: "string list"
  cs_output :: "console_line list"

definition console_new :: "logging_config \<Rightarrow> string list \<Rightarrow> console_sink" where
  "console_new c names = \<lparr>cs_config = c, cs_blocklist_names = names, cs_output = []\<rparr>"

definition source_name :: "string list \<Rightarrow> u8 option \<Rightarrow> string option" where
  "source_name names sid = Option.bind sid (\<lambda>i. opt_index names (unat i))"

definition should_log :: "logging_config \<Rightarrow> query_log_action \<Rightarrow> bool" where
  "should_log c a = (case a of Blocked \<Rightarrow> lg_log_blocked c | _ \<Rightarrow> lg_log_all_queries c)"

definition action_text :: "string list \<Rightarrow> query_log_entry \<Rightarrow> string" where
  "action_text names e =
     (case le_action e of
        Local \<Rightarrow> ''fetched from local_records''
      | Blocked \<Rightarrow>
          ''blocked and blocklist ''
            @ (case source_name names (le_source_id e) of Some n \<Rightarrow> n | None \<Rightarrow> ''Unknown'')
            @ '' blocked it''
      | Cached \<Rightarrow>
          (case le_ttl_remaining e of
             Some ttl \<Rightarrow> ''fetched from cache. TTL remaining: '' @ show_u64 ttl @ ''s''
           | None \<Rightarrow> ''fetched from cache'')
      | Forwarded \<Rightarrow>
          (case le_upstream e of
             Some up \<Rightarrow> ''fetched from upstream '' @ up
           | None \<Rightarrow> ''fetched from upstream'')
      | Allowed \<Rightarrow> ''Allowed'')"

definition console_line_of :: "(ip \<Rightarrow> string) \<Rightarrow> (rtype \<Rightarrow> string) \<Rightarrow> logging_config \<Rightarrow> string list
    \<Rightarrow> query_log_entry \<Rightarrow> console_line" where
  "console_line_of show_ip show_rt c names e =
     (if lg_format c = ''json'' then
        JsonEvent (show_ip (le_client_ip e)) (le_domain e) (show_rt (le_query_type e)) (le_action e)
          (le_source_id e) (source_name names (le_source_id e)) (le_upstream e) (le_latency_ms e)
          (le_ttl_remaining e)
      else
        TextLine (''['' @ show_rt (le_query_type e) @ ''] '' @ show_ip (le_client_ip e) @ '' ''
          @ le_domain e @ '' ('' @ show_rt (le_query_type e) @ '') -> '' @ action_text names e
          @ '' ['' @ show_u64 (le_latency_ms e) @ ''ms]''))"

definition console_log :: "(ip \<Rightarrow> string) \<Rightarrow> (rtype \<Rightarrow> string) \<Rightarrow> query_log_entry \<Rightarrow> console_sink \<Rightarrow> console_sink" where
  "console_log show_ip show_rt e s =
     (if \<not> lg_enable (cs_config s) then s
      else if should_log (cs_config s) (le_action e) then
        s\<lparr>cs_output := cs_output s
            @ [console_line_of show_ip show_rt (cs_config s) (cs_blocklist_names s) e]\<rparr>
      else s)"

section \<open>The ring buffer\<close>

record memory_sink =
  ms_buffer :: "query_log_entry list rwlock"
  ms_capacity :: nat

definition memory_new :: "nat \<Rightarrow> memory_sink" where
  "memory_new capacity = \<lparr>ms_buffer = rw_new [], ms_capacity = capacity\<rparr>"

definition get_recent :: "memory_sink \<Rightarrow> query_log_entry list outcome" where
  "get_recent s = rw_read (ms_buffer s)"

definition push_bounded :: "nat \<Rightarrow> 'a \<Rightarrow> 'a list \<Rightarrow> 'a list" where
  "push_bounded capacity x buffer =
     (if length buffer \<ge> capacity then tl buffer else buffer) @ [x]"

definition memory_log :: "query_log_entry \<Rightarrow> memory_sink \<Rightarrow> unit outcome \<times> memory_sink" where
  "memory_log e s =
     (case rw_write (\<lambda>buffer. Inr (push_bounded (ms_capacity s) e buffer)) (ms_buffer s) of
        (r, buffer) \<Rightarrow> (r, s\<lparr>ms_buffer := buffer\<rparr>))"

section \<open>The database writer\<close>

text \<open>
  The sink hands its entries to a thread over an unbounded channel; the thread owns the writing
  connection. The clock readings of one round are a record. A panic ends the thread and closes the
  channel, and later sends are errors that are only reported.
\<close>

record sqlite_writer =
  sw_db :: db
  sw_last_cleanup :: systemtime
  sw_retention_hours :: u64
  sw_blocklist_names :: "string list"

record sqlite_sink =
  ss_channel :: "query_log_entry list"
  ss_writer_alive :: bool
  ss_writer :: sqlite_writer

record writer_clock =
  wc_insert :: systemtime
  wc_elapsed :: systemtime
  wc_prune :: systemtime
  wc_done :: systemtime

definition sqlite_new :: "db \<Rightarrow> logging_config \<Rightarrow> string list \<Rightarrow> systemtime \<Rightarrow> sqlite_sink" where
  "sqlite_new d c names now =
     \<lparr>ss_channel = [], ss_writer_alive = True,
      ss_writer = \<lparr>sw_db = d, sw_last_cleanup = now,
        sw_retention_hours = lg_sqlite_retention_hours c, sw_blocklist_names = names\<rparr>\<rparr>"

definition sqlite_log :: "query_log_entry \<Rightarrow> sqlite_sink \<Rightarrow> sqlite_sink" where
  "sqlite_log e s = (if ss_writer_alive s then s\<lparr>ss_channel := ss_channel s @ [e]\<rparr> else s)"

text \<open>\<open>elapsed().unwrap_or_default()\<close>: zero when the clock went backwards.\<close>

definition elapsed_since :: "systemtime \<Rightarrow> systemtime \<Rightarrow> duration" where
  "elapsed_since t now = nat (now - t)"

definition writer_round :: "(stmt \<Rightarrow> bool) \<Rightarrow> (ip \<Rightarrow> string) \<Rightarrow> (rtype \<Rightarrow> string) \<Rightarrow> writer_clock
    \<Rightarrow> query_log_entry \<Rightarrow> sqlite_writer \<Rightarrow> unit outcome \<times> sqlite_writer" where
  "writer_round fails show_ip show_rt clk e w =
     (let blocklist_name = source_name (sw_blocklist_names w) (le_source_id e) in
      case insert_log fails show_ip show_rt (wc_insert clk) e blocklist_name (sw_db w) of
        (Inl p, d) \<Rightarrow> (Inl p, w\<lparr>sw_db := d\<rparr>)
      | (Inr _, d) \<Rightarrow>
          if elapsed_since (sw_last_cleanup w) (wc_elapsed clk) > duration_from_secs 3600 then
            (case prune_logs fails (wc_prune clk) (sw_retention_hours w) d of
               (Inl p, d) \<Rightarrow> (Inl p, w\<lparr>sw_db := d\<rparr>)
             | (Inr _, d) \<Rightarrow> (Inr (), w\<lparr>sw_db := d, sw_last_cleanup := wc_done clk\<rparr>))
          else (Inr (), w\<lparr>sw_db := d\<rparr>))"

text \<open>One turn of \<open>run_sqlite_writer\<close>: it waits while the channel is empty.\<close>

definition run_sqlite_writer :: "(stmt \<Rightarrow> bool) \<Rightarrow> (ip \<Rightarrow> string) \<Rightarrow> (rtype \<Rightarrow> string) \<Rightarrow> writer_clock
    \<Rightarrow> sqlite_sink \<Rightarrow> sqlite_sink" where
  "run_sqlite_writer fails show_ip show_rt clk s =
     (case ss_channel s of
        [] \<Rightarrow> s
      | e # es \<Rightarrow>
          if \<not> ss_writer_alive s then s
          else case writer_round fails show_ip show_rt clk e (ss_writer s) of
            (Inl p, w) \<Rightarrow> s\<lparr>ss_channel := [], ss_writer_alive := False, ss_writer := w\<rparr>
          | (Inr _, w) \<Rightarrow> s\<lparr>ss_channel := es, ss_writer := w\<rparr>)"

section \<open>The contract of a sink\<close>

text \<open>
  \<open>trait QueryLogSink\<close>: what a sink shows after an entry is a final part of what it showed before
  followed by what the entry adds. Nothing is invented, duplicated or reordered. \<open>ready\<close> is the
  sink's own invariant.
\<close>

locale query_log_sink =
  fixes sink_log :: "query_log_entry \<Rightarrow> 's \<Rightarrow> 's"
    and held :: "'s \<Rightarrow> 'v list"
    and adds :: "'s \<Rightarrow> query_log_entry \<Rightarrow> 'v list"
    and ready :: "'s \<Rightarrow> bool"
  assumes log_suffix: "ready s \<Longrightarrow> suffix (held (sink_log e s)) (held s @ adds s e)"
    and log_adds: "ready s \<Longrightarrow> adds (sink_log e s) = adds s"
    and log_ready: "ready s \<Longrightarrow> ready (sink_log e s)"
begin

lemma run_ready: "ready s \<Longrightarrow> ready (fold sink_log es s)"
  by (induction es arbitrary: s) (simp_all add: log_ready)

lemma run_adds: "ready s \<Longrightarrow> adds (fold sink_log es s) = adds s"
  by (induction es arbitrary: s) (simp_all add: log_ready log_adds)

lemma run_suffix:
  "ready s \<Longrightarrow> suffix (held (fold sink_log es s)) (held s @ concat (map (adds s) es))"
proof (induction es arbitrary: s)
  case (Cons e es)
  have "suffix (held (fold sink_log es (sink_log e s)))
      (held (sink_log e s) @ concat (map (adds s) es))"
    using Cons.IH [of "sink_log e s"] Cons.prems by (simp add: log_ready log_adds)
  also have "suffix \<dots> ((held s @ adds s e) @ concat (map (adds s) es))"
    using log_suffix [OF Cons.prems, of e] by (simp add: suffix_appendD suffix_def)
  finally show ?case by simp
qed simp

lemma run_held_only:
  "ready s \<Longrightarrow> v \<in> set (held (fold sink_log es s)) \<Longrightarrow> v \<in> set (held s) \<or> (\<exists>e \<in> set es. v \<in> set (adds s e))"
  using set_mono_suffix [OF run_suffix [of s es]] by auto

end

text \<open>A sink that keeps everything.\<close>

locale lossless_sink = query_log_sink +
  assumes log_all: "ready s \<Longrightarrow> held (sink_log e s) = held s @ adds s e"
begin

lemma run_all: "ready s \<Longrightarrow> held (fold sink_log es s) = held s @ concat (map (adds s) es)"
  by (induction es arbitrary: s) (simp_all add: log_ready log_adds log_all)

end

text \<open>A sink of bounded size that keeps the latest.\<close>

locale bounded_sink = query_log_sink +
  fixes bound :: "'a \<Rightarrow> nat"
  assumes log_latest: "ready s \<Longrightarrow> length (held s) \<le> bound s \<Longrightarrow>
      held (sink_log e s) = latest (bound s) (held s @ adds s e)"
    and log_bound: "ready s \<Longrightarrow> bound (sink_log e s) = bound s"
begin

lemma run_latest:
  assumes "ready s" "length (held s) \<le> bound s"
  shows "held (fold sink_log es s) = latest (bound s) (held s @ concat (map (adds s) es))"
  using assms
proof (induction es arbitrary: s)
  case (Cons e es)
  have s: "held (sink_log e s) = latest (bound s) (held s @ adds s e)"
    using Cons.prems by (rule log_latest)
  moreover have "adds (sink_log e s) = adds s" "ready (sink_log e s)" "bound (sink_log e s) = bound s"
    using Cons.prems by (simp_all add: log_adds log_ready log_bound)
  ultimately show ?case
    using Cons.IH [of "sink_log e s"] by simp
qed simp

end

lemma source_name_None [simp]: "source_name names None = None"
  by (simp add: source_name_def)

lemma console_log_fields [simp]:
  "cs_config (console_log show_ip show_rt e s) = cs_config s"
  "cs_blocklist_names (console_log show_ip show_rt e s) = cs_blocklist_names s"
  by (simp_all add: console_log_def)

text \<open>The lines an entry adds to the console: one or none.\<close>

definition console_adds :: "(ip \<Rightarrow> string) \<Rightarrow> (rtype \<Rightarrow> string) \<Rightarrow> console_sink \<Rightarrow> query_log_entry
    \<Rightarrow> console_line list" where
  "console_adds show_ip show_rt s e =
     (if lg_enable (cs_config s) \<and> should_log (cs_config s) (le_action e)
      then [console_line_of show_ip show_rt (cs_config s) (cs_blocklist_names s) e] else [])"

interpretation console: lossless_sink "console_log show_ip show_rt" cs_output
  "console_adds show_ip show_rt" "\<lambda>_. True" for show_ip show_rt
  by unfold_locales (auto simp: console_log_def console_adds_def fun_eq_iff suffix_def)

definition memory_held :: "memory_sink \<Rightarrow> query_log_entry list" where
  "memory_held s = lk_value (ms_buffer s)"

lemma push_bounded_latest:
  "length buffer \<le> max 1 capacity \<Longrightarrow>
   push_bounded capacity x buffer = latest (max 1 capacity) (buffer @ [x])"
  by (cases buffer) (auto simp: push_bounded_def latest_def max_def)

lemma memory_log_ready:
  "\<not> lk_poisoned (ms_buffer s) \<Longrightarrow> memory_log e s =
     (Inr (), s\<lparr>ms_buffer := (ms_buffer s)\<lparr>lk_value := push_bounded (ms_capacity s) e (memory_held s)\<rparr>\<rparr>)"
  by (simp add: memory_log_def rw_write_total memory_held_def)

interpretation memory: bounded_sink "\<lambda>e s. snd (memory_log e s)" memory_held "\<lambda>_ e. [e]"
  "\<lambda>s. \<not> lk_poisoned (ms_buffer s)" "\<lambda>s. max 1 (ms_capacity s)"
proof unfold_locales
  fix s :: memory_sink and e
  assume s: "\<not> lk_poisoned (ms_buffer s)"
  show "suffix (memory_held (snd (memory_log e s))) (memory_held s @ [e])"
    using s by (cases "memory_held s") (auto simp: memory_log_ready memory_held_def push_bounded_def suffix_def)
qed (simp_all add: memory_log_ready push_bounded_latest, simp_all add: memory_held_def push_bounded_latest)

interpretation sqlite: lossless_sink sqlite_log ss_channel "\<lambda>_ e. [e]" ss_writer_alive
  by unfold_locales (simp_all add: sqlite_log_def)

section \<open>Properties\<close>

lemma rw_read_memory: "get_recent s = (if lk_poisoned (ms_buffer s) then Inl LockPoisoned else Inr (memory_held s))"
  by (simp add: get_recent_def rw_read_def memory_held_def)

text \<open>
  The console shows, in the order of the entries, one line for each entry its filters let
  through, and nothing else: with logging enabled, the blocked ones under one switch and all others
  under the other.
\<close>

theorem console_shows_selected:
  "cs_output (fold (console_log show_ip show_rt) es (console_new c names)) =
     map (console_line_of show_ip show_rt c names)
       (filter (\<lambda>e. lg_enable c \<and>
          (if le_action e = Blocked then lg_log_blocked c else lg_log_all_queries c)) es)"
proof -
  have "concat (map (console_adds show_ip show_rt (console_new c names)) es) =
      map (console_line_of show_ip show_rt c names)
       (filter (\<lambda>e. lg_enable c \<and>
          (if le_action e = Blocked then lg_log_blocked c else lg_log_all_queries c)) es)"
    by (induction es)
      (simp_all add: console_adds_def console_new_def should_log_def split: query_log_action.split)
  then show ?thesis
    using console.run_all [of show_ip show_rt es "console_new c names"] by (simp add: console_new_def)
qed

text \<open>
  The ring buffer of the user interface holds exactly the latest entries, as many as its
  capacity (at least one), oldest first; reading it never fails.
\<close>

theorem memory_ring_latest:
  "get_recent (fold (\<lambda>e s. snd (memory_log e s)) es (memory_new capacity)) =
     Inr (latest (max 1 capacity) es)"
  using memory.run_latest [of "memory_new capacity" es] memory.run_ready [of "memory_new capacity" es]
  by (simp add: rw_read_memory memory_new_def memory_held_def)

text \<open>Rounds that fall within the hour since the last cleanup.\<close>

definition quiet_round :: "sqlite_writer \<Rightarrow> writer_clock \<Rightarrow> bool" where
  "quiet_round w clk \<longleftrightarrow> 0 \<le> wc_insert clk \<and> wc_elapsed clk \<le> sw_last_cleanup w + 3600 * 10 ^ 9"

lemma quiet_writer_round:
  assumes "quiet_round w clk"
  shows "writer_round fails show_ip show_rt clk e w = (Inr (), w\<lparr>sw_db :=
    snd (insert_log fails show_ip show_rt (wc_insert clk) e
      (source_name (sw_blocklist_names w) (le_source_id e)) (sw_db w))\<rparr>)"
proof -
  have "nat (wc_elapsed clk - sw_last_cleanup w) \<le> 3600 * 10 ^ 9"
    using assms unfolding quiet_round_def by (simp only: nat_le_iff) simp
  then show ?thesis
    using assms by (auto simp: quiet_round_def writer_round_def Let_def insert_log_def unix_secs_def
        elapsed_since_def duration_from_secs_def ns_per_sec_def)
qed

lemma quiet_rounds:
  assumes "length clks = length es" "ss_channel s = es" "ss_writer_alive s"
    and "\<forall>clk \<in> set clks. quiet_round (ss_writer s) clk"
  shows "fold (run_sqlite_writer fails show_ip show_rt) clks s =
    s\<lparr>ss_channel := [], ss_writer := (ss_writer s)\<lparr>sw_db :=
      insert_all fails show_ip show_rt
        (map2 (\<lambda>clk e. (wc_insert clk, e,
            source_name (sw_blocklist_names (ss_writer s)) (le_source_id e))) clks es)
        (sw_db (ss_writer s))\<rparr>\<rparr>"
  using assms
proof (induction clks es arbitrary: s rule: list_induct2)
  case (Cons clk clks e es)
  then show ?case
    by (simp add: run_sqlite_writer_def quiet_writer_round) (simp add: quiet_round_def)
qed simp



end
