(* ===== verification/Tokio_Channel.thy ===== *)
theory Tokio_Channel
  imports Rust_Collections
begin

text \<open>
  The bounded channel of the asynchronous runtime (\<open>tokio::sync::mpsc\<close>), as far as the sources use
  it: a queue of at most \<open>capacity\<close> waiting values, open while its receiver lives. \<open>try_send\<close> never
  waits: it refuses a value when the queue is full or the receiver gone.

  The interface \<open>fifo_channel\<close> says what the users of a channel rely on; its lemmas speak of any
  interleaving of sends and receives.
\<close>

section \<open>Operations\<close>

record 'a channel =
  ch_capacity :: nat
  ch_queue :: "'a list"
  ch_open :: bool

datatype send_result = Sent | Full | Closed

definition channel_new :: "nat \<Rightarrow> 'a channel" where
  "channel_new capacity = \<lparr>ch_capacity = capacity, ch_queue = [], ch_open = True\<rparr>"

definition try_send :: "'a \<Rightarrow> 'a channel \<Rightarrow> send_result \<times> 'a channel" where
  "try_send x c =
     (if \<not> ch_open c then (Closed, c)
      else if length (ch_queue c) \<ge> ch_capacity c then (Full, c)
      else (Sent, c\<lparr>ch_queue := ch_queue c @ [x]\<rparr>))"

definition recv :: "'a channel \<Rightarrow> 'a option \<times> 'a channel" where
  "recv c =
     (case ch_queue c of
        [] \<Rightarrow> (None, c)
      | x # xs \<Rightarrow> (Some x, c\<lparr>ch_queue := xs\<rparr>))"

text \<open>Dropping the receiver discards what is waiting.\<close>

definition close_channel :: "'a channel \<Rightarrow> 'a channel" where
  "close_channel c = c\<lparr>ch_queue := [], ch_open := False\<rparr>"

section \<open>The interface\<close>

datatype 'a channel_op = Send 'a | Recv

fun sent_values :: "'a channel_op list \<Rightarrow> 'a list" where
  "sent_values [] = []"
| "sent_values (Send x # ops) = x # sent_values ops"
| "sent_values (Recv # ops) = sent_values ops"

locale fifo_channel =
  fixes send :: "'a \<Rightarrow> 'q \<Rightarrow> 'q"
    and receive :: "'q \<Rightarrow> 'a option \<times> 'q"
    and waiting :: "'q \<Rightarrow> 'a list"
    and alive :: "'q \<Rightarrow> bool"
    and bound :: "'q \<Rightarrow> nat"
  assumes send_accepts: "alive q \<Longrightarrow> length (waiting q) < bound q \<Longrightarrow> waiting (send x q) = waiting q @ [x]"
    and send_refuses: "\<not> alive q \<or> bound q \<le> length (waiting q) \<Longrightarrow> waiting (send x q) = waiting q"
    and receive_empty: "waiting q = [] \<Longrightarrow> receive q = (None, q)"
    and receive_first: "waiting q = y # ys \<Longrightarrow> fst (receive q) = Some y \<and> waiting (snd (receive q)) = ys"
    and send_frame: "alive (send x q) = alive q \<and> bound (send x q) = bound q"
    and receive_frame: "alive (snd (receive q)) = alive q \<and> bound (snd (receive q)) = bound q"
begin

fun run_channel :: "'a channel_op list \<Rightarrow> 'q \<Rightarrow> 'a list \<times> 'q" where
  "run_channel [] q = ([], q)"
| "run_channel (Send x # ops) q = run_channel ops (send x q)"
| "run_channel (Recv # ops) q =
     (case receive q of
        (None, q') \<Rightarrow> run_channel ops q'
      | (Some y, q') \<Rightarrow> (case run_channel ops q' of (ys, q'') \<Rightarrow> (y # ys, q'')))"

lemma send_waiting_cases:
  "waiting (send x q) = waiting q @ [x] \<and> alive q \<and> length (waiting q) < bound q
   \<or> waiting (send x q) = waiting q \<and> (\<not> alive q \<or> bound q \<le> length (waiting q))"
  by (meson not_le send_accepts send_refuses)

lemma send_bounded: "length (waiting q) \<le> bound q \<Longrightarrow> length (waiting (send x q)) \<le> bound (send x q)"
  using send_waiting_cases [of x q] send_frame [of x q] by auto

lemma receive_waiting:
  "waiting q = (case fst (receive q) of None \<Rightarrow> [] | Some y \<Rightarrow> [y]) @ waiting (snd (receive q))"
  by (cases "waiting q") (simp_all add: receive_empty receive_first)

lemma run_bounded:
  "length (waiting q) \<le> bound q \<Longrightarrow>
   length (waiting (snd (run_channel ops q))) \<le> bound q"
proof (induction ops q rule: run_channel.induct)
  case (2 x ops q)
  then show ?case using send_bounded [of q x] send_frame [of x q] by simp
next
  case (3 ops q)
  have "length (waiting (snd (receive q))) \<le> bound (snd (receive q))"
    using "3.prems" receive_waiting [of q] receive_frame [of q]
    by (metis le_add2 le_trans length_append)
  with 3 receive_frame [of q] show ?case
    by (cases "receive q"; cases "fst (receive q)") (auto split: prod.splits)
qed simp

lemma run_subseq:
  "subseq (fst (run_channel ops q) @ waiting (snd (run_channel ops q))) (waiting q @ sent_values ops)"
proof (induction ops q rule: run_channel.induct)
  case (2 x ops q)
  have "subseq (waiting (send x q) @ sent_values ops) ((waiting q @ [x]) @ sent_values ops)"
    using send_waiting_cases [of x q] by (auto intro: list_emb_append_mono)
  with 2 show ?case by (auto intro: subseq_order.trans)
next
  case (3 ops q)
  then show ?case using receive_waiting [of q]
    by (cases "receive q"; cases "fst (receive q)") (auto split: prod.splits)
qed simp

lemma run_lossless:
  assumes "alive q" "length (waiting q) + length (sent_values ops) \<le> bound q"
  shows "fst (run_channel ops q) @ waiting (snd (run_channel ops q)) = waiting q @ sent_values ops"
  using assms
proof (induction ops q rule: run_channel.induct)
  case (2 x ops q)
  then show ?case using send_accepts [of q x] send_frame [of x q] by simp
next
  case (3 ops q)
  have "length (waiting (snd (receive q))) \<le> length (waiting q)"
    using receive_waiting [of q] by (metis le_add2 length_append)
  with 3 receive_waiting [of q] receive_frame [of q] show ?case
    by (cases "receive q"; cases "fst (receive q)") (auto split: prod.splits)
qed simp

end

lemma try_send_frame [simp]:
  "ch_open (snd (try_send x c)) = ch_open c" "ch_capacity (snd (try_send x c)) = ch_capacity c"
  by (simp_all add: try_send_def)

interpretation tokio: fifo_channel "\<lambda>x c. snd (try_send x c)" recv ch_queue ch_open ch_capacity
  by unfold_locales (auto simp: try_send_def recv_def split: list.splits)

end
