(* ===== verification/Query_Logger.thy ===== *)
theory Query_Logger
  imports Log_Sinks Tokio_Channel
begin

text \<open>
  \<open>src/logger/mod.rs\<close>: the logger owns one bounded channel per sink; logging offers the entry to each
  and never waits; one task per sink takes the entries out and hands them to the sink.
\<close>

section \<open>Sinks and their tasks\<close>

text \<open>\<open>dyn QueryLogSink\<close>: one of the three.\<close>

datatype sink =
    ConsoleSink console_sink
  | SqliteSink sqlite_sink
  | MemorySink memory_sink

fun dyn_log :: "(ip \<Rightarrow> string) \<Rightarrow> (rtype \<Rightarrow> string) \<Rightarrow> query_log_entry \<Rightarrow> sink \<Rightarrow> unit outcome \<times> sink" where
  "dyn_log show_ip show_rt e (ConsoleSink s) = (Inr (), ConsoleSink (console_log show_ip show_rt e s))"
| "dyn_log show_ip show_rt e (SqliteSink s) = (Inr (), SqliteSink (sqlite_log e s))"
| "dyn_log show_ip show_rt e (MemorySink s) =
     (case memory_log e s of (r, s') \<Rightarrow> (r, MemorySink s'))"

record sink_task =
  tk_channel :: "query_log_entry channel"
  tk_sink :: sink

type_synonym query_logger = "sink_task list"

definition spawn_sink :: "sink \<Rightarrow> sink_task" where
  "spawn_sink s = \<lparr>tk_channel = channel_new 1000, tk_sink = s\<rparr>"

text \<open>\<open>log_writer.take()\<close>: the first database sink consumes the writer, further ones are skipped.\<close>

fun configured_sinks :: "logging_config \<Rightarrow> string list \<Rightarrow> systemtime \<Rightarrow> string list \<Rightarrow> db option \<Rightarrow> sink_task list" where
  "configured_sinks c names now [] log_writer = []"
| "configured_sinks c names now (sink_type # types) log_writer =
     (if sink_type = ''console'' then
        spawn_sink (ConsoleSink (console_new c names)) # configured_sinks c names now types log_writer
      else if sink_type = ''sqlite'' then
        (case log_writer of
           Some d \<Rightarrow> spawn_sink (SqliteSink (sqlite_new d c names now)) # configured_sinks c names now types None
         | None \<Rightarrow> configured_sinks c names now types None)
      else configured_sinks c names now types log_writer)"

definition query_logger_new :: "logging_config \<Rightarrow> string list \<Rightarrow> sink list \<Rightarrow> db option \<Rightarrow> systemtime \<Rightarrow> query_logger" where
  "query_logger_new c names extra_sinks log_writer now =
     configured_sinks c names now (lg_query_log_sinks c) log_writer @ map spawn_sink extra_sinks"

text \<open>The loop of \<open>QueryLogger::log\<close>: it leaves at the last sink, which gets the entry itself.\<close>

definition offer :: "query_log_entry \<Rightarrow> sink_task \<Rightarrow> sink_task" where
  "offer e t = t\<lparr>tk_channel := snd (try_send e (tk_channel t))\<rparr>"

fun log_loop :: "nat \<Rightarrow> nat \<Rightarrow> query_log_entry \<Rightarrow> sink_task list \<Rightarrow> sink_task list" where
  "log_loop i len e [] = []"
| "log_loop i len e (t # ts) =
     (if i = len - 1 then offer e t # ts else offer e t # log_loop (i + 1) len e ts)"

definition log_entry :: "query_log_entry \<Rightarrow> query_logger \<Rightarrow> query_logger" where
  "log_entry e l = log_loop 0 (length l) e l"

text \<open>
  One turn of a sink's task, \<open>while let Some(entry) = rx.recv().await { sink.log(&entry); }\<close>: it
  waits while the channel is empty; a panic ends the task and drops the receiver.
\<close>

definition sink_turn :: "(ip \<Rightarrow> string) \<Rightarrow> (rtype \<Rightarrow> string) \<Rightarrow> sink_task \<Rightarrow> sink_task" where
  "sink_turn show_ip show_rt t =
     (if \<not> ch_open (tk_channel t) then t
      else case recv (tk_channel t) of
        (None, c) \<Rightarrow> t
      | (Some e, c) \<Rightarrow>
          (case dyn_log show_ip show_rt e (tk_sink t) of
             (Inr _, s) \<Rightarrow> t\<lparr>tk_channel := c, tk_sink := s\<rparr>
           | (Inl p, s) \<Rightarrow> t\<lparr>tk_channel := close_channel c, tk_sink := s\<rparr>))"

lemma log_loop_all: "i + length ts = len \<Longrightarrow> log_loop i len e ts = map (offer e) ts"
  by (induction ts arbitrary: i) auto

lemma log_entry_map: "log_entry e l = map (offer e) l"
  by (simp add: log_entry_def log_loop_all)

section \<open>The sinks behind their common contract\<close>

text \<open>What a sink can hold: a line of the console, an entry on its way to the table or in the ring.\<close>

datatype held_item = HeldLine console_line | HeldEntry query_log_entry

fun sink_held :: "sink \<Rightarrow> held_item list" where
  "sink_held (ConsoleSink s) = map HeldLine (cs_output s)"
| "sink_held (SqliteSink s) = map HeldEntry (ss_channel s)"
| "sink_held (MemorySink s) = map HeldEntry (memory_held s)"

fun sink_adds :: "(ip \<Rightarrow> string) \<Rightarrow> (rtype \<Rightarrow> string) \<Rightarrow> sink \<Rightarrow> query_log_entry \<Rightarrow> held_item list" where
  "sink_adds show_ip show_rt (ConsoleSink s) e = map HeldLine (console_adds show_ip show_rt s e)"
| "sink_adds show_ip show_rt (SqliteSink s) e = [HeldEntry e]"
| "sink_adds show_ip show_rt (MemorySink s) e = [HeldEntry e]"

fun sink_ready :: "sink \<Rightarrow> bool" where
  "sink_ready (ConsoleSink s) = True"
| "sink_ready (SqliteSink s) = ss_writer_alive s"
| "sink_ready (MemorySink s) = (\<not> lk_poisoned (ms_buffer s))"

lemma suffix_map: "suffix xs ys \<Longrightarrow> suffix (map f xs) (map f ys)"
  by (auto simp: suffix_def)

lemma dyn_log_ready: "sink_ready s \<Longrightarrow> fst (dyn_log show_ip show_rt e s) = Inr ()"
  by (cases s) (auto simp: memory_log_ready split: prod.splits)

interpretation dyn_sink: query_log_sink "\<lambda>e s. snd (dyn_log show_ip show_rt e s)" sink_held
  "sink_adds show_ip show_rt" sink_ready for show_ip show_rt
proof unfold_locales
  fix s :: sink and e
  assume s: "sink_ready s"
  show "suffix (sink_held (snd (dyn_log show_ip show_rt e s))) (sink_held s @ sink_adds show_ip show_rt s e)"
  proof (cases s)
    case (ConsoleSink c)
    then show ?thesis using suffix_map [OF console.log_suffix [of show_ip show_rt e c]] by simp
  next
    case (SqliteSink q)
    then show ?thesis using s suffix_map [OF sqlite.log_suffix [of q e]] by simp
  next
    case (MemorySink m)
    then show ?thesis
      using s suffix_map [OF memory.log_suffix [of m e], of HeldEntry]
      by (cases "memory_log e m") simp
  qed
  show "sink_adds show_ip show_rt (snd (dyn_log show_ip show_rt e s)) = sink_adds show_ip show_rt s"
    using s by (cases s) (auto simp: fun_eq_iff console_adds_def split: prod.splits)
  show "sink_ready (snd (dyn_log show_ip show_rt e s))"
    using s by (cases s) (auto simp: sqlite_log_def memory_log_ready split: prod.splits)
qed

section \<open>Submissions and turns, interleaved\<close>

datatype logger_event = Submit query_log_entry | Turn nat

fun submitted :: "logger_event list \<Rightarrow> query_log_entry list" where
  "submitted [] = []"
| "submitted (Submit e # evs) = e # submitted evs"
| "submitted (Turn j # evs) = submitted evs"

fun logger_step :: "(ip \<Rightarrow> string) \<Rightarrow> (rtype \<Rightarrow> string) \<Rightarrow> logger_event \<Rightarrow> query_logger \<Rightarrow> query_logger" where
  "logger_step show_ip show_rt (Submit e) l = log_entry e l"
| "logger_step show_ip show_rt (Turn j) l =
     (if j < length l then l[j := sink_turn show_ip show_rt (l ! j)] else l)"

definition logger_run :: "(ip \<Rightarrow> string) \<Rightarrow> (rtype \<Rightarrow> string) \<Rightarrow> logger_event list \<Rightarrow> query_logger \<Rightarrow> query_logger" where
  "logger_run show_ip show_rt evs l = fold (logger_step show_ip show_rt) evs l"

text \<open>What one sink's channel sees of it.\<close>

fun channel_ops :: "nat \<Rightarrow> logger_event list \<Rightarrow> query_log_entry channel_op list" where
  "channel_ops i [] = []"
| "channel_ops i (Submit e # evs) = Send e # channel_ops i evs"
| "channel_ops i (Turn j # evs) = (if j = i then Recv # channel_ops i evs else channel_ops i evs)"

definition task_ready :: "sink_task \<Rightarrow> bool" where
  "task_ready t \<longleftrightarrow> ch_open (tk_channel t) \<and> sink_ready (tk_sink t)"

lemma sent_values_ops [simp]: "sent_values (channel_ops i evs) = submitted evs"
  by (induction evs rule: submitted.induct) simp_all

lemma logger_step_length [simp]: "length (logger_step show_ip show_rt ev l) = length l"
  by (cases ev) (simp_all add: log_entry_map)

lemma recv_frame [simp]: "ch_open (snd (recv c)) = ch_open c"
  by (simp add: recv_def split: list.splits)

lemma sink_turn_ready:
  assumes "task_ready t"
  shows "sink_turn show_ip show_rt t =
    (case recv (tk_channel t) of
       (None, c) \<Rightarrow> t
     | (Some e, c) \<Rightarrow> t\<lparr>tk_channel := c, tk_sink := snd (dyn_log show_ip show_rt e (tk_sink t))\<rparr>)"
  using assms dyn_log_ready [of "tk_sink t" show_ip show_rt]
  by (auto simp: task_ready_def sink_turn_def split: prod.splits option.splits sum.splits)
    (metis fst_conv sum.simps(4))+

lemma logger_run_task:
  assumes "i < length l" "task_ready (l ! i)"
  shows "logger_run show_ip show_rt evs l ! i =
    (case tokio.run_channel (channel_ops i evs) (tk_channel (l ! i)) of
       (delivered, c) \<Rightarrow> \<lparr>tk_channel = c,
          tk_sink = fold (\<lambda>e s. snd (dyn_log show_ip show_rt e s)) delivered (tk_sink (l ! i))\<rparr>)"
  using assms
proof (induction evs arbitrary: l)
  case Nil
  then show ?case by (simp add: logger_run_def)
next
  case (Cons ev evs)
  let ?l = "logger_step show_ip show_rt ev l"
  have run: "logger_run show_ip show_rt (ev # evs) l = logger_run show_ip show_rt evs ?l"
    by (simp add: logger_run_def)
  show ?case
  proof (cases ev)
    case (Submit e)
    then have li: "?l ! i = offer e (l ! i)" using Cons.prems by (simp add: log_entry_map)
    moreover from this have "task_ready (?l ! i)"
      using Cons.prems(2) by (simp add: task_ready_def offer_def)
    ultimately show ?thesis
      unfolding run using Cons.IH [of ?l] Cons.prems Submit by (simp add: offer_def log_entry_map)
  next
    case (Turn j)
    show ?thesis
    proof (cases "j = i")
      case False
      with Turn Cons.prems have "?l ! i = l ! i" by simp
      with Cons.IH [of ?l] Cons.prems Turn False show ?thesis unfolding run by simp
    next
      case True
      with Turn Cons.prems have li: "?l ! i = sink_turn show_ip show_rt (l ! i)" by simp
      obtain r c where r: "recv (tk_channel (l ! i)) = (r, c)" by fastforce
      have "ch_open c" using Cons.prems(2) recv_frame [of "tk_channel (l ! i)"] r by (simp add: task_ready_def)
      then have ready: "task_ready (?l ! i)"
        using Cons.prems(2) dyn_sink.log_ready [of "tk_sink (l ! i)"]
        by (cases r) (simp_all add: li sink_turn_ready r task_ready_def)
      have none: "r = None \<Longrightarrow> c = tk_channel (l ! i)"
        using r by (auto simp: recv_def split: list.splits)
      show ?thesis
        unfolding run using Cons.IH [of ?l, OF _ ready] Cons.prems Turn True none
        by (cases r) (simp_all add: li sink_turn_ready r split: prod.splits)
    qed
  qed
qed

lemma configured_sinks_fresh:
  "t \<in> set (configured_sinks c names now types w) \<Longrightarrow>
   task_ready t \<and> tk_channel t = channel_new 1000"
  by (induction c names now types w rule: configured_sinks.induct)
    (auto simp: spawn_sink_def task_ready_def channel_new_def sqlite_new_def split: if_splits option.splits)

lemma query_logger_new_fresh:
  "(\<And>s. s \<in> set extra \<Longrightarrow> sink_ready s) \<Longrightarrow> t \<in> set (query_logger_new c names extra w now) \<Longrightarrow>
   task_ready t \<and> tk_channel t = channel_new 1000"
  using configured_sinks_fresh
  by (fastforce simp: query_logger_new_def spawn_sink_def task_ready_def channel_new_def)

text \<open>A sink stays of its kind.\<close>

lemma dyn_log_ring:
  "(\<exists>m. snd (dyn_log show_ip show_rt e s) = MemorySink m) \<longleftrightarrow> (\<exists>m. s = MemorySink m)"
  by (cases s) (auto split: prod.split)

section \<open>Properties\<close>

text \<open>
  C13. Logging is fire and forget, and each sink gets the entries in order: whatever the
  interleaving of submissions and of the sinks' turns, a sink has been handed, followed by what
  waits in its channel, a subsequence of what was submitted; nothing is dropped while no more than
  a thousand entries were submitted; and no channel ever holds more than a thousand.
\<close>

theorem logger_delivers_in_order:
  assumes "\<forall>s \<in> set extra. sink_ready s" "i < length (query_logger_new c names extra w now)"
  shows "\<exists>delivered.
    (let l = query_logger_new c names extra w now;
         t = logger_run show_ip show_rt evs l ! i;
         queue = ch_queue (tk_channel t)
     in tk_sink t = fold (\<lambda>e s. snd (dyn_log show_ip show_rt e s)) delivered (tk_sink (l ! i))
      \<and> subseq (delivered @ queue) (submitted evs)
      \<and> (length (submitted evs) \<le> 1000 \<longrightarrow> delivered @ queue = submitted evs)
      \<and> length queue \<le> 1000)"
proof -
  let ?l = "query_logger_new c names extra w now"
  let ?c = "channel_new 1000 :: query_log_entry channel"
  have fresh: "task_ready (?l ! i)" "tk_channel (?l ! i) = ?c"
    using query_logger_new_fresh [of extra "?l ! i" c names w now] assms by simp_all
  have c: "ch_queue ?c = []" "ch_open ?c" "ch_capacity ?c = 1000" by (simp_all add: channel_new_def)
  show ?thesis
    using logger_run_task [OF assms(2) fresh(1), of show_ip show_rt evs]
      tokio.run_subseq [of "channel_ops i evs" ?c] tokio.run_lossless [of ?c "channel_ops i evs"]
      tokio.run_bounded [of ?c "channel_ops i evs"]
    by (intro exI [of _ "fst (tokio.run_channel (channel_ops i evs) ?c)"])
      (simp add: fresh(2) c Let_def case_prod_unfold)
qed

theorem logger_delivers_in_order_witness:
  "\<forall>e. \<exists>delivered.
     (let l = query_logger_new logging_config_default [] [MemorySink (memory_new 100)] None 0;
          t = logger_run plain_show_ip plain_show_rt [Submit e, Turn 0, Submit e, Turn 1] l ! 0
      in tk_sink t = fold (\<lambda>e s. snd (dyn_log plain_show_ip plain_show_rt e s)) delivered (tk_sink (l ! 0))
        \<and> delivered @ ch_queue (tk_channel t) = [e, e])"
proof
  fix e
  have "\<forall>s \<in> set [MemorySink (memory_new 100)]. sink_ready s"
    "0 < length (query_logger_new logging_config_default [] [MemorySink (memory_new 100)] None 0)"
    by (simp_all add: memory_new_def query_logger_new_def)
  from logger_delivers_in_order [OF this, of plain_show_ip plain_show_rt "[Submit e, Turn 0, Submit e, Turn 1]"]
  show "\<exists>delivered.
     (let l = query_logger_new logging_config_default [] [MemorySink (memory_new 100)] None 0;
          t = logger_run plain_show_ip plain_show_rt [Submit e, Turn 0, Submit e, Turn 1] l ! 0
      in tk_sink t = fold (\<lambda>e s. snd (dyn_log plain_show_ip plain_show_rt e s)) delivered (tk_sink (l ! 0))
        \<and> delivered @ ch_queue (tk_channel t) = [e, e])"
    unfolding Let_def by auto
qed

text \<open>
  C23. A sink's task terminates its backlog: after as many turns as entries wait in its channel, the
  channel is empty and the sink has been handed every one of them, in order.
\<close>

theorem sink_drains_backlog:
  assumes "task_ready t"
  shows "(sink_turn show_ip show_rt ^^ length (ch_queue (tk_channel t))) t =
    \<lparr>tk_channel = (tk_channel t)\<lparr>ch_queue := []\<rparr>,
     tk_sink = fold (\<lambda>e s. snd (dyn_log show_ip show_rt e s)) (ch_queue (tk_channel t)) (tk_sink t)\<rparr>"
  using assms
proof (induction "ch_queue (tk_channel t)" arbitrary: t)
  case Nil
  then show ?case by (cases t; cases "tk_channel t") simp
next
  case (Cons e es)
  let ?t = "sink_turn show_ip show_rt t"
  have t: "?t = t\<lparr>tk_channel := (tk_channel t)\<lparr>ch_queue := es\<rparr>,
      tk_sink := snd (dyn_log show_ip show_rt e (tk_sink t))\<rparr>"
    using Cons.hyps(2) [symmetric] by (simp add: sink_turn_ready [OF Cons.prems] recv_def)
  have ready: "task_ready ?t"
    using Cons.prems dyn_sink.log_ready [of "tk_sink t"] by (simp add: t task_ready_def)
  have q: "es = ch_queue (tk_channel ?t)" by (simp add: t)
  have "(sink_turn show_ip show_rt ^^ length es) ?t =
    \<lparr>tk_channel = (tk_channel t)\<lparr>ch_queue := []\<rparr>,
     tk_sink = fold (\<lambda>e s. snd (dyn_log show_ip show_rt e s)) (e # es) (tk_sink t)\<rparr>"
    using Cons.hyps(1) [OF q ready] by (simp add: t)
  moreover have "(sink_turn show_ip show_rt ^^ length (e # es)) t = (sink_turn show_ip show_rt ^^ length es) ?t"
    by (simp add: funpow_Suc_right del: funpow.simps(2))
  ultimately show ?case
    unfolding Cons.hyps(2) [symmetric] by (simp only:)
qed

theorem sink_drains_backlog_witness:
  "\<forall>e. tk_channel ((sink_turn plain_show_ip plain_show_rt ^^ 1)
      (offer e (spawn_sink (MemorySink (memory_new 100))))) = channel_new 1000"
proof
  fix e
  let ?t = "offer e (spawn_sink (MemorySink (memory_new 100)))"
  have "task_ready ?t"
    by (simp add: task_ready_def offer_def spawn_sink_def channel_new_def memory_new_def)
  moreover have "ch_queue (tk_channel ?t) = [e]"
    by (simp add: offer_def spawn_sink_def channel_new_def try_send_def)
  ultimately show "tk_channel ((sink_turn plain_show_ip plain_show_rt ^^ 1) ?t) = channel_new 1000"
    using sink_drains_backlog [of ?t plain_show_ip plain_show_rt]
    by (simp add: offer_def spawn_sink_def channel_new_def try_send_def)
qed

end
