(* ===== verification/Api_Model.thy ===== *)
theory Api_Model
  imports App_State Query_Logger
begin

text \<open>
  \<open>src/api/\<close>: the two data sources behind the trait \<open>ApiDataSource\<close>, and the HTTP handlers over them.
  Each handler is a function of the shared state it reads, with its clock readings; replies are
  JSON values. Routing, the listener and the embedded files are the web framework's: the file store
  is the parameter \<open>asset\<close>, the guessed content type \<open>mime_of\<close>.
\<close>

section \<open>The data sources\<close>

text \<open>
  \<open>InMemoryStatsSource\<close> shares the collector and the ring buffer; \<open>PersistentStatsSource\<close> owns a
  connection, with its mutex.
\<close>

definition in_memory_get_stats :: "(ip \<Rightarrow> string) \<Rightarrow> (ip counters \<Rightarrow> ip counters)
    \<Rightarrow> (string counters \<Rightarrow> string counters) \<Rightarrow> systemtime \<Rightarrow> instant \<Rightarrow> systemtime
    \<Rightarrow> stats \<Rightarrow> stats_snapshot outcome" where
  "in_memory_get_stats = get_snapshot"

definition in_memory_get_logs :: "u64 \<Rightarrow> memory_sink \<Rightarrow> query_log_entry list outcome" where
  "in_memory_get_logs limit sink =
     res_bind (rw_read (ms_buffer sink)) (\<lambda>buffer. Inr (take (unat limit) (rev buffer)))"

type_synonym db_client = "db \<times> bool"

definition persistent_get_stats :: "(db_row list \<Rightarrow> db_row list) \<Rightarrow> systemtime \<Rightarrow> db_client
    \<Rightarrow> stats_snapshot outcome \<times> db_client" where
  "persistent_get_stats scan wall client =
     (case client of (d, poisoned) \<Rightarrow>
        (case get_stats scan wall d poisoned of (r, p) \<Rightarrow> (r, (d, p))))"

definition persistent_get_logs :: "(db_row list \<Rightarrow> db_row list) \<Rightarrow> (string \<Rightarrow> ip option)
    \<Rightarrow> (string \<Rightarrow> rtype option) \<Rightarrow> u64 \<Rightarrow> db_client \<Rightarrow> query_log_entry list outcome \<times> db_client" where
  "persistent_get_logs scan parse_ip parse_rt limit client =
     (case client of (d, poisoned) \<Rightarrow>
        (case get_logs scan parse_ip parse_rt limit d poisoned of (r, p) \<Rightarrow> (r, (d, p))))"

section \<open>The interface\<close>

text \<open>
  \<open>trait ApiDataSource\<close>, its log half: a healthy source returns entries it stores, without
  duplication, as many as asked for or all of them, and reading changes nothing.
\<close>

locale api_data_source =
  fixes logs :: "u64 \<Rightarrow> 's \<Rightarrow> query_log_entry list outcome \<times> 's"
    and stored :: "'s \<Rightarrow> query_log_entry list"
    and healthy :: "'s \<Rightarrow> bool"
  assumes logs_healthy: "healthy s \<Longrightarrow> unat limit < 2 ^ 63 \<Longrightarrow>
      \<exists>es. logs limit s = (Inr es, s) \<and> mset es \<subseteq># mset (stored s)
        \<and> length es = min (unat limit) (length (stored s))"
begin

lemma logs_all:
  assumes "healthy s" "unat limit < 2 ^ 63" "length (stored s) \<le> unat limit"
  obtains es where "logs limit s = (Inr es, s)" "mset es = mset (stored s)"
proof -
  obtain es where es: "logs limit s = (Inr es, s)" "mset es \<subseteq># mset (stored s)"
    "length es = length (stored s)"
    using logs_healthy [OF assms(1,2)] assms(3) by auto
  then have "size (mset es) = size (mset (stored s))" by simp
  with es(2) have "mset es = mset (stored s)"
    by (metis mset_subset_size less_irrefl subset_mset.le_imp_less_or_eq)
  with es(1) that show ?thesis by blast
qed

end

interpretation in_memory: api_data_source "\<lambda>limit s. (in_memory_get_logs limit s, s)" memory_held
  "\<lambda>s. \<not> lk_poisoned (ms_buffer s)"
proof unfold_locales
  fix s :: memory_sink and limit :: u64
  assume "\<not> lk_poisoned (ms_buffer s)"
  moreover have "mset (take n (rev xs)) \<subseteq># mset xs" for n and xs :: "query_log_entry list"
    by (metis append_take_drop_id mset_append mset_rev mset_subset_eq_add_left)
  ultimately show "\<exists>es. (in_memory_get_logs limit s, s) = (Inr es, s) \<and> mset es \<subseteq># mset (memory_held s)
      \<and> length es = min (unat limit) (length (memory_held s))"
    by (simp add: in_memory_get_logs_def rw_read_def memory_held_def min.commute)
qed

interpretation persistent: api_data_source "persistent_get_logs scan parse_ip parse_rt"
  "\<lambda>(d, poisoned). map (entry_of_row parse_ip parse_rt) (rows_of d)"
  "\<lambda>(d, poisoned). is_scan scan \<and> table_ready d \<and> \<not> poisoned" for scan parse_ip parse_rt
proof unfold_locales
  fix s :: db_client and limit :: u64
  let ?f = "entry_of_row parse_ip parse_rt"
  assume a: "case s of (d, poisoned) \<Rightarrow> is_scan scan \<and> table_ready d \<and> \<not> poisoned"
    and limit: "unat limit < 2 ^ 63"
  then obtain d where s: "s = (d, False)" "is_scan scan" "table_ready d" by auto
  have m: "mset (scan (rows_of d)) = mset (rows_of d)" using s(2) by (simp add: is_scan_def)
  then have l: "length (scan (rows_of d)) = length (rows_of d)" by (rule mset_eq_length)
  let ?es = "map ?f (take (unat limit) (sort_by_desc row_timestamp (scan (rows_of d))))"
  have "mset ?es \<subseteq># mset (map ?f (rows_of d))"
    using top_k_subset [of row_timestamp "unat limit" "scan (rows_of d)"] m
    by (simp add: top_k_def image_mset_subseteq_mono)
  then show "\<exists>es. persistent_get_logs scan parse_ip parse_rt limit s = (Inr es, s)
      \<and> mset es \<subseteq># mset (case s of (d, poisoned) \<Rightarrow> map ?f (rows_of d))
      \<and> length es = min (unat limit) (length (case s of (d, poisoned) \<Rightarrow> map ?f (rows_of d)))"
    using s l limit
    by (intro exI [of _ ?es])
      (simp add: persistent_get_logs_def get_logs_def sql_limit_def u64_as_i64_small min.commute)
qed

section \<open>The handlers\<close>

definition api_get_logs :: "(u64 \<Rightarrow> 's \<Rightarrow> query_log_entry list outcome \<times> 's) \<Rightarrow> 's
    \<Rightarrow> query_log_entry list outcome \<times> 's" where
  "api_get_logs source_logs s = source_logs 100 s"

definition api_get_config :: "config \<Rightarrow> config" where
  "api_get_config c = c"

text \<open>\<open>send(()).await\<close> waits while the channel is full (no reply yet); a closed channel is ignored.\<close>

definition trigger_refresh :: "unit channel \<Rightarrow> json option \<times> unit channel" where
  "trigger_refresh refresh_sender =
     (case try_send () refresh_sender of
        (Full, c) \<Rightarrow> (None, c)
      | (_, c) \<Rightarrow> (Some (JObj [(''status'', JStr ''refresh_triggered'')]), c))"

definition pause_duration :: "u64 \<Rightarrow> duration" where
  "pause_duration duration_minutes = duration_from_secs (duration_minutes * 60)"

definition api_pause_blocking :: "instant \<Rightarrow> u64 \<Rightarrow> app_state \<Rightarrow> json outcome \<times> app_state" where
  "api_pause_blocking now duration_minutes st =
     (case pause_blocking now (pause_duration duration_minutes) st of
        (Inl p, st') \<Rightarrow> (Inl p, st')
      | (Inr _, st') \<Rightarrow>
          (Inr (JObj [(''status'', JStr ''paused''), (''duration_min'', JNum (unat duration_minutes))]), st'))"

definition api_resume_blocking :: "app_state \<Rightarrow> json outcome \<times> app_state" where
  "api_resume_blocking st =
     (case resume_blocking st of
        (Inl p, st') \<Rightarrow> (Inl p, st')
      | (Inr _, st') \<Rightarrow> (Inr (JObj [(''status'', JStr ''resumed'')]), st'))"

definition api_get_status :: "instant \<Rightarrow> instant \<Rightarrow> app_state \<Rightarrow> json outcome" where
  "api_get_status now1 now2 st =
     res_bind (is_blocking_active now1 st) (\<lambda>active.
     res_bind (get_pause_remaining_secs now2 st) (\<lambda>remaining.
     Inr (JObj [(''blocking_active'', JBool active),
       (''pause_remaining_secs'', case remaining of None \<Rightarrow> JNull | Some s \<Rightarrow> JNum (unat s))])))"

datatype static_reply = FoundFile (sr_type: string) (sr_data: string) | NotFound string

definition static_handler :: "(string \<Rightarrow> string option) \<Rightarrow> (string \<Rightarrow> string) \<Rightarrow> string \<Rightarrow> static_reply" where
  "static_handler asset mime_of uri_path =
     (let path = trim_start_matches (CHR ''/'') uri_path;
          path = (if path = [] then ''index.html'' else path)
      in case asset path of
           Some content \<Rightarrow> FoundFile (mime_of path) content
         | None \<Rightarrow> NotFound ''404 Not Found'')"

section \<open>Properties\<close>

text \<open>
  What the user interface shows without a database: the latest hundred entries handed to the ring
  buffer of the start-up, newest first.
\<close>

theorem api_logs_newest_first:
  "fst (api_get_logs (\<lambda>limit s. (in_memory_get_logs limit s, s))
     (fold (\<lambda>e s. snd (memory_log e s)) es (memory_new 100))) = Inr (take 100 (rev es))"
  using memory.run_latest [of "memory_new 100" es] memory.run_ready [of "memory_new 100" es]
  by (simp add: api_get_logs_def in_memory_get_logs_def rw_read_def memory_held_def memory_new_def
      latest_rev)

text \<open>
  A pause asked for over the API holds for the minutes asked for, and \<open>/api/status\<close> says so with
  the whole seconds left, until it ends; then blocking is active again and no remaining time is
  shown. This needs the minutes to fit: as seconds in 64 bits, and on the clock.
\<close>

theorem api_pause_status:
  assumes "\<not> lk_poisoned st" "unat minutes * 60 < 2 ^ 64"
    and "now + unat minutes * 60 * ns_per_sec < instant_limit" "now \<le> t"
  shows "let st' = snd (api_pause_blocking now minutes st); until = now + unat minutes * 60 * ns_per_sec in
    fst (api_pause_blocking now minutes st) =
      Inr (JObj [(''status'', JStr ''paused''), (''duration_min'', JNum (unat minutes))])
    \<and> api_get_status t t st' = Inr (JObj [(''blocking_active'', JBool (until \<le> t)),
        (''pause_remaining_secs'', if t < until then JNum ((until - t) div ns_per_sec) else JNull)])"
proof -
  have d: "pause_duration minutes = unat minutes * 60 * ns_per_sec"
    using assms(2) by (simp add: pause_duration_def duration_from_secs_def unat_word_ariths)
  let ?until = "now + unat minutes * 60 * ns_per_sec"
  have "(?until - t) div ns_per_sec \<le> unat minutes * 60"
  proof -
    have "?until - t \<le> unat minutes * 60 * ns_per_sec" using assms(4) by simp
    then have "(?until - t) div ns_per_sec \<le> (unat minutes * 60 * ns_per_sec) div ns_per_sec"
      by (rule div_le_mono)
    then show ?thesis by simp
  qed
  then have "unat (duration_as_secs (?until - t)) = (?until - t) div ns_per_sec"
    using assms(2) by (simp add: duration_as_secs_def unat_of_nat)
  then show ?thesis
    using assms(1,3)
    by (simp add: api_pause_blocking_def d pause_blocking_healthy api_get_status_def
        is_blocking_active_healthy pause_remaining_healthy Let_def)
qed

theorem api_pause_status_witness:
  "api_get_status (30 * ns_per_sec) (30 * ns_per_sec) (snd (api_pause_blocking 0 1 app_state_new)) =
     Inr (JObj [(''blocking_active'', JBool False), (''pause_remaining_secs'', JNum 30)])"
proof -
  have "\<not> lk_poisoned app_state_new" "unat (1 :: u64) * 60 < 2 ^ 64"
    "0 + unat (1 :: u64) * 60 * ns_per_sec < instant_limit" "0 \<le> 30 * ns_per_sec"
    by (simp_all add: app_state_new_def instant_limit_def ns_per_sec_def)
  from api_pause_status [OF this] show ?thesis
    by (simp add: Let_def ns_per_sec_def)
qed

text \<open>
  The minutes are multiplied without a check: a request for 307445734561825861 minutes is
  confirmed as such, yet blocking is active again 44 seconds later.
\<close>

theorem api_pause_wraps:
  assumes "\<not> lk_poisoned st" "now + 44 * ns_per_sec < instant_limit"
  shows "fst (api_pause_blocking now 307445734561825861 st) =
      Inr (JObj [(''status'', JStr ''paused''), (''duration_min'', JNum 307445734561825861)])
    \<and> is_blocking_active (now + 44 * ns_per_sec) (snd (api_pause_blocking now 307445734561825861 st)) = Inr True"
proof -
  have "pause_duration 307445734561825861 = 44 * ns_per_sec"
    by (simp add: pause_duration_def duration_from_secs_def)
  with assms show ?thesis
    by (simp add: api_pause_blocking_def pause_blocking_healthy is_blocking_active_healthy)
qed

theorem api_pause_wraps_witness:
  "is_blocking_active (44 * ns_per_sec) (snd (api_pause_blocking 0 307445734561825861 app_state_new)) = Inr True"
proof -
  have "\<not> lk_poisoned app_state_new" "0 + 44 * ns_per_sec < instant_limit"
    by (simp_all add: app_state_new_def instant_limit_def ns_per_sec_def)
  from api_pause_wraps [OF this] show ?thesis by simp
qed

end
