(* ===== verification/Api_Server.thy ===== *)
theory Api_Server
  imports Api_Model
begin

text \<open>
  \<open>start_api_server\<close> of \<open>src/api/mod.rs\<close>: the table of routes, the state the handlers share, and the
  dispatch of a request to its handler. Matching a request against the table is the web framework's
  and a parameter, with its documented behaviour as the hypothesis \<open>router_contract\<close>.
\<close>

section \<open>The shared state\<close>

text \<open>\<open>dyn ApiDataSource\<close> with what it refers to: the collector and the ring buffer, or the connection.\<close>

datatype data_source =
    InMemoryStatsSource stats memory_sink
  | PersistentStatsSource db_client

record api_state =
  as_data_source :: data_source
  as_engine :: app_state
  as_config :: config
  as_refresh_sender :: "unit channel"

section \<open>Requests, routes and replies\<close>

datatype http_method = GET | POST | HEAD | OtherMethod string

record http_request =
  hq_method :: http_method
  hq_path :: string
  hq_body :: string

datatype endpoint =
    GetStats | PauseBlocking | ResumeBlocking | GetStatus | GetConfig | TriggerRefresh | GetLogs

type_synonym route = "string \<times> http_method \<times> endpoint"

definition routes :: "route list" where
  "routes =
     [(''/api/stats'', GET, GetStats),
      (''/api/pause'', POST, PauseBlocking),
      (''/api/resume'', POST, ResumeBlocking),
      (''/api/status'', GET, GetStatus),
      (''/api/config'', GET, GetConfig),
      (''/api/refresh'', POST, TriggerRefresh),
      (''/api/logs'', GET, GetLogs)]"

datatype routed = Matched endpoint | Fallback | WrongMethod

datatype api_reply =
    StatsReply stats_snapshot
  | LogsReply "query_log_entry list"
  | ConfigReply config
  | JsonReply json
  | StaticReply static_reply
  | BadRequest
  | MethodNotAllowed
  | Aborted panic

text \<open>
  What one request meets: the framework's router and its parsing of the body, the clocks, the texts
  and orders the data sources depend on, and the embedded files.
\<close>

record api_env =
  ap_router :: "route list \<Rightarrow> http_method \<Rightarrow> string \<Rightarrow> routed"
  ap_parse_pause :: "string \<Rightarrow> u64 option"
  ap_now :: instant
  ap_now_remaining :: instant
  ap_wall :: systemtime
  ap_wall_updated :: systemtime
  ap_show_ip :: "ip \<Rightarrow> string"
  ap_over_clients :: "ip counters \<Rightarrow> ip counters"
  ap_over_domains :: "string counters \<Rightarrow> string counters"
  ap_scan :: "db_row list \<Rightarrow> db_row list"
  ap_parse_ip :: "string \<Rightarrow> ip option"
  ap_parse_rt :: "string \<Rightarrow> rtype option"
  ap_asset :: "string \<Rightarrow> string option"
  ap_mime_of :: "string \<Rightarrow> string"

text \<open>
  The router's documentation: a path of the table with its method goes to its handler (\<open>HEAD\<close> also
  to the one for \<open>GET\<close>), a path that is not in the table to the fallback, and no request to a
  handler registered for another method.
\<close>

definition router_contract :: "(route list \<Rightarrow> http_method \<Rightarrow> string \<Rightarrow> routed) \<Rightarrow> bool" where
  "router_contract router \<longleftrightarrow> (\<forall>table m path. distinct (map fst table) \<longrightarrow>
     (\<forall>e. (path, m, e) \<in> set table \<longrightarrow> router table m path = Matched e)
     \<and> (\<forall>e. router table m path = Matched e \<longrightarrow>
          (path, m, e) \<in> set table \<or> m = HEAD \<and> (path, GET, e) \<in> set table)
     \<and> (path \<notin> fst ` set table \<longrightarrow> router table m path = Fallback))"

text \<open>A router that behaves so, for the examples.\<close>

definition plain_router :: "route list \<Rightarrow> http_method \<Rightarrow> string \<Rightarrow> routed" where
  "plain_router table m path =
     (case map_of table path of
        None \<Rightarrow> Fallback
      | Some (m', e) \<Rightarrow> if m = m' \<or> m = HEAD \<and> m' = GET then Matched e else WrongMethod)"

section \<open>The handlers over the shared state\<close>

fun source_get_stats :: "api_env \<Rightarrow> data_source \<Rightarrow> stats_snapshot outcome \<times> data_source" where
  "source_get_stats env (InMemoryStatsSource st ring) =
     (in_memory_get_stats (ap_show_ip env) (ap_over_clients env) (ap_over_domains env)
        (ap_wall env) (ap_now env) (ap_wall_updated env) st, InMemoryStatsSource st ring)"
| "source_get_stats env (PersistentStatsSource client) =
     (case persistent_get_stats (ap_scan env) (ap_wall env) client of
        (r, client') \<Rightarrow> (r, PersistentStatsSource client'))"

fun source_get_logs :: "api_env \<Rightarrow> u64 \<Rightarrow> data_source \<Rightarrow> query_log_entry list outcome \<times> data_source" where
  "source_get_logs env limit (InMemoryStatsSource st ring) =
     (in_memory_get_logs limit ring, InMemoryStatsSource st ring)"
| "source_get_logs env limit (PersistentStatsSource client) =
     (case persistent_get_logs (ap_scan env) (ap_parse_ip env) (ap_parse_rt env) limit client of
        (r, client') \<Rightarrow> (r, PersistentStatsSource client'))"

definition api_get_stats :: "api_env \<Rightarrow> data_source \<Rightarrow> stats_snapshot outcome \<times> data_source" where
  "api_get_stats env source = source_get_stats env source"

text \<open>A panic in a handler aborts its request only.\<close>

fun reply :: "('a \<Rightarrow> api_reply) \<Rightarrow> 'a outcome \<Rightarrow> api_reply" where
  "reply f (Inr x) = f x"
| "reply f (Inl p) = Aborted p"

fun api_handle :: "api_env \<Rightarrow> string \<Rightarrow> endpoint \<Rightarrow> api_state \<Rightarrow> api_reply option \<times> api_state" where
  "api_handle env body GetStats s =
     (case api_get_stats env (as_data_source s) of
        (r, source) \<Rightarrow> (Some (reply StatsReply r), s\<lparr>as_data_source := source\<rparr>))"
| "api_handle env body GetLogs s =
     (case api_get_logs (source_get_logs env) (as_data_source s) of
        (r, source) \<Rightarrow> (Some (reply LogsReply r), s\<lparr>as_data_source := source\<rparr>))"
| "api_handle env body GetConfig s = (Some (ConfigReply (api_get_config (as_config s))), s)"
| "api_handle env body GetStatus s =
     (Some (reply JsonReply (api_get_status (ap_now env) (ap_now_remaining env) (as_engine s))), s)"
| "api_handle env body PauseBlocking s =
     (case ap_parse_pause env body of
        None \<Rightarrow> (Some BadRequest, s)
      | Some minutes \<Rightarrow>
          (case api_pause_blocking (ap_now env) minutes (as_engine s) of
             (r, engine) \<Rightarrow> (Some (reply JsonReply r), s\<lparr>as_engine := engine\<rparr>)))"
| "api_handle env body ResumeBlocking s =
     (case api_resume_blocking (as_engine s) of
        (r, engine) \<Rightarrow> (Some (reply JsonReply r), s\<lparr>as_engine := engine\<rparr>))"
| "api_handle env body TriggerRefresh s =
     (case trigger_refresh (as_refresh_sender s) of
        (r, sender) \<Rightarrow> (map_option JsonReply r, s\<lparr>as_refresh_sender := sender\<rparr>))"

text \<open>A request, from the router to the reply; no reply means that its handler waits.\<close>

definition api_serve :: "api_env \<Rightarrow> http_request \<Rightarrow> api_state \<Rightarrow> api_reply option \<times> api_state" where
  "api_serve env rq s =
     (case ap_router env routes (hq_method rq) (hq_path rq) of
        Matched e \<Rightarrow> api_handle env (hq_body rq) e s
      | Fallback \<Rightarrow> (Some (StaticReply (static_handler (ap_asset env) (ap_mime_of env) (hq_path rq))), s)
      | WrongMethod \<Rightarrow> (Some MethodNotAllowed, s))"

text \<open>The listener's address must be free, or the task panics and drops its state, the sender too.\<close>

definition start_api_server :: "(u16 \<Rightarrow> string + unit) \<Rightarrow> data_source \<Rightarrow> app_state \<Rightarrow> config
    \<Rightarrow> unit channel \<Rightarrow> u16 \<Rightarrow> api_state outcome" where
  "start_api_server bind source engine c refresh_sender port =
     (case bind port of
        Inl e \<Rightarrow> Inl (UnwrapFailed e)
      | Inr _ \<Rightarrow> Inr \<lparr>as_data_source = source, as_engine = engine, as_config = c,
          as_refresh_sender = refresh_sender\<rparr>)"

section \<open>Lemmas\<close>

lemma routes_distinct [simp]: "distinct (map fst routes)"
  by (simp add: routes_def)

lemma plain_router_contract: "router_contract plain_router"
proof -
  have lookup: "map_of table path = Some (m, e) \<longleftrightarrow> (path, m, e) \<in> set table"
    if "distinct (map fst table)" for table :: "route list" and path m e
    using that by simp
  show ?thesis
    by (auto simp: router_contract_def plain_router_def lookup map_of_eq_None_iff
        split: option.split_asm option.split if_split_asm intro: rev_image_eqI)
qed

lemma routed_endpoint:
  "router_contract router \<Longrightarrow> (path, m, e) \<in> set routes \<Longrightarrow> router routes m path = Matched e"
  unfolding router_contract_def using routes_distinct by blast

lemma unrouted_fallback:
  "router_contract router \<Longrightarrow> path \<notin> fst ` set routes \<Longrightarrow> router routes m path = Fallback"
  unfolding router_contract_def using routes_distinct by blast

text \<open>Without \<open>POST\<close>, only the readers are reached.\<close>

lemma reader_endpoint:
  assumes "router_contract router" "router routes m path = Matched e" "m \<noteq> POST"
  shows "e \<in> {GetStats, GetStatus, GetConfig, GetLogs}"
proof -
  have "(path, m, e) \<in> set routes \<or> m = HEAD \<and> (path, GET, e) \<in> set routes"
    using assms(1,2) routes_distinct unfolding router_contract_def by blast
  then show ?thesis using assms(3) by (auto simp: routes_def)
qed

text \<open>What a data source holds, apart from the health of its locks.\<close>

fun source_data :: "data_source \<Rightarrow> stats \<times> memory_sink + db" where
  "source_data (InMemoryStatsSource st ring) = Inl (st, ring)"
| "source_data (PersistentStatsSource client) = Inr (fst client)"

lemma source_reads:
  "source_data (snd (source_get_stats env src)) = source_data src"
  "source_data (snd (source_get_logs env limit src)) = source_data src"
  by (cases src; auto simp: persistent_get_stats_def persistent_get_logs_def split: prod.split)+

section \<open>Properties\<close>


definition sample_api_env :: "instant \<Rightarrow> api_env" where
  "sample_api_env now =
     \<lparr>ap_router = plain_router, ap_parse_pause = (\<lambda>body. if body = ''{5}'' then Some 5 else None),
      ap_now = now, ap_now_remaining = now, ap_wall = 0, ap_wall_updated = 0,
      ap_show_ip = plain_show_ip, ap_over_clients = (\<lambda>m. m), ap_over_domains = (\<lambda>m. m),
      ap_scan = (\<lambda>rows. rows), ap_parse_ip = plain_parse_ip, ap_parse_rt = plain_parse_rt,
      ap_asset = Map.empty, ap_mime_of = (\<lambda>_. ''text/html'')\<rparr>"

definition sample_api_state :: api_state where
  "sample_api_state = \<lparr>as_data_source = InMemoryStatsSource (stats_new 300 [] [] 0) (memory_new 100),
     as_engine = app_state_new, as_config = config_default, as_refresh_sender = channel_new 1\<rparr>"


end
