(* ===== verification/Dns_Handler.thy ===== *)
theory Dns_Handler
  imports App_State Domain_Matcher Resolver_Model Query_Logger
begin

text \<open>
  \<open>src/server/dns_request_handler.rs\<close>: the request handler, one definition per method, in the state
  and panic monad. The state is the handler's fields (shared by every request) with two traces of
  what it does outside: the responses sent and the background resolutions spawned.

  What lies outside the sources is the record \<open>handler_env\<close>, one for each request: the clock
  readings in the order they are taken, the upstreams' replies, whether the socket accepts the
  response, and three library functions (parsing a name, the header of a response to a request,
  and the cache).

  The cache library is known by what was inserted, newest first: \<open>en_cached\<close> says what a lookup
  returns. Its documented behaviour (\<open>cache_contract\<close>) is that it returns the value last inserted
  for the key or, at any time, nothing: an entry may have been evicted.
\<close>

section \<open>State and environment\<close>

type_synonym cache_key = "string \<times> rtype"
type_synonym cache_value = "dns_record list \<times> instant \<times> instant"

record dns_handler =
  dh_config :: config
  dh_stats :: stats
  dh_logger :: query_logger
  dh_app_state :: app_state
  dh_blocklist :: hashed_matcher
  dh_resolver :: resolver
  dh_cache :: "(cache_key \<times> cache_value) list"
  dh_local_records :: "string \<rightharpoonup> dns_record list"
  dh_sent :: "response list"
  dh_spawned :: "cache_key list"

record handler_env =
  en_start :: instant
  en_pause_check :: instant
  en_cache_check :: instant
  en_insert :: instant
  en_logged :: instant
  en_lookup :: lookup_env
  en_send_ok :: bool
  en_parse_name :: "string \<Rightarrow> string option"
  en_default_name :: string
  en_response_header :: "header \<Rightarrow> header"
  en_cached :: "(cache_key \<times> cache_value) list \<Rightarrow> cache_key \<Rightarrow> cache_value option"

definition cache_contract :: "handler_env \<Rightarrow> bool" where
  "cache_contract env \<longleftrightarrow> (\<forall>history key v. en_cached env history key = Some v \<longrightarrow> map_of history key = Some v)"

definition header_contract :: "handler_env \<Rightarrow> bool" where
  "header_contract env \<longleftrightarrow> (\<forall>hd. hd_id (en_response_header env hd) = hd_id hd
     \<and> hd_rcode (en_response_header env hd) = NoError)"

type_synonym 'a handler = "(dns_handler, 'a) st"

section \<open>Construction\<close>

fun insert_local :: "(string \<Rightarrow> string option) \<Rightarrow> u32 \<Rightarrow> (string \<times> ip) list \<Rightarrow> (string \<rightharpoonup> dns_record list)
    \<Rightarrow> (string \<rightharpoonup> dns_record list)" where
  "insert_local parse_name local_ttl [] local_map = local_map"
| "insert_local parse_name local_ttl ((domain, addr) # rest) local_map =
     (let records = (case parse_name domain of
          Some name \<Rightarrow>
            (case addr of
               V4 a \<Rightarrow> [from_rdata name local_ttl (RD_A a)]
             | V6 a \<Rightarrow> [from_rdata name local_ttl (RD_AAAA a)])
        | None \<Rightarrow> [])
      in insert_local parse_name local_ttl rest
           (if records \<noteq> [] then local_map(domain \<mapsto> records) else local_map))"

definition dns_handler_new :: "(string \<Rightarrow> string option) \<Rightarrow> config \<Rightarrow> stats \<Rightarrow> query_logger
    \<Rightarrow> hashed_matcher \<Rightarrow> resolver \<Rightarrow> app_state \<Rightarrow> dns_handler" where
  "dns_handler_new parse_name c st logger blocklist r app =
     \<lparr>dh_config = c, dh_stats = st, dh_logger = logger, dh_app_state = app, dh_blocklist = blocklist,
      dh_resolver = r, dh_cache = [],
      dh_local_records = insert_local parse_name (cc_min_ttl (cf_cache c)) (cf_local_records c) Map.empty,
      dh_sent = [], dh_spawned = []\<rparr>"

section \<open>Resolution and the cache\<close>

text \<open>\<open>records.iter().map(ttl).min().unwrap_or(300)\<close>\<close>

fun record_min_ttl :: "dns_record list \<Rightarrow> u32" where
  "record_min_ttl [] = 300"
| "record_min_ttl [r] = rec_ttl r"
| "record_min_ttl (r # rs) = min (rec_ttl r) (record_min_ttl rs)"

definition deadlines :: "instant \<Rightarrow> u32 \<Rightarrow> u64 \<Rightarrow> (instant \<times> instant) outcome" where
  "deadlines now effective_ttl grace =
     res_bind (instant_add now (duration_from_secs (ucast effective_ttl))) (\<lambda>valid_until.
     res_bind (instant_add valid_until (duration_from_secs grace)) (\<lambda>stale_until.
     Inr (valid_until, stale_until)))"

definition call_resolver :: "handler_env \<Rightarrow> string \<Rightarrow> rtype \<Rightarrow> resolve_result handler" where
  "call_resolver env name qt h =
     (case resolve (dh_resolver h) (en_lookup env) name qt (dh_stats h) of
        (res, r, st) \<Rightarrow> (res, h\<lparr>dh_resolver := r, dh_stats := st\<rparr>))"

definition cache_insert :: "cache_key \<Rightarrow> cache_value \<Rightarrow> unit handler" where
  "cache_insert key v = st_modify (\<lambda>h. h\<lparr>dh_cache := (key, v) # dh_cache h\<rparr>)"

definition resolve_and_cache :: "handler_env \<Rightarrow> string \<Rightarrow> rtype \<Rightarrow> resolve_result handler" where
  "resolve_and_cache env name qt =
     st_bind (call_resolver env name qt) (\<lambda>res.
     case res of
       Inl e \<Rightarrow> st_return (Inl e)
     | Inr (records, upstream) \<Rightarrow>
         st_bind (st_lift (\<lambda>h. Inr (dh_config h))) (\<lambda>c.
         let records = (if cf_disable_ipv6 c then filter (\<lambda>r. record_type r \<noteq> RT_AAAA) records else records);
             min_ttl = cc_min_ttl (cf_cache c);
             effective_ttl = (if records \<noteq> [] then max (record_min_ttl records) min_ttl else min_ttl)
         in st_bind (st_lift (\<lambda>_. deadlines (en_insert env) effective_ttl (cc_grace_period_sec (cf_cache c))))
              (\<lambda>(valid_until, stale_until).
            st_bind (cache_insert (name, qt) (records, valid_until, stale_until)) (\<lambda>_.
            st_return (Inr (records, upstream))))))"

definition update_blocklist :: "hashed_matcher \<Rightarrow> unit handler" where
  "update_blocklist new_blocklist = st_modify (\<lambda>h. h\<lparr>dh_blocklist := new_blocklist\<rparr>)"

definition check_blocklist :: "string \<Rightarrow> dns_handler \<Rightarrow> u8 option" where
  "check_blocklist name h = check (dh_blocklist h) name"

definition check_cache :: "handler_env \<Rightarrow> string \<Rightarrow> rtype \<Rightarrow> dns_handler
    \<Rightarrow> (dns_record list \<times> bool \<times> u64 option) option" where
  "check_cache env name qt h =
     (case en_cached env (dh_cache h) (name, qt) of
        Some (records, valid_until, stale_until) \<Rightarrow>
          let now = en_cache_check env;
              ttl = (if valid_until > now then Some (duration_as_secs (valid_until - now)) else Some 0)
          in if now < valid_until then Some (records, False, ttl)
             else if now < stale_until then Some (records, True, ttl)
             else None
      | None \<Rightarrow> None)"

section \<open>Parsing the query\<close>

definition normal_name :: "string \<Rightarrow> string" where
  "normal_name s = make_ascii_lowercase (if ends_with s (CHR ''.'') then butlast s else s)"

definition get_query_info :: "handler_env \<Rightarrow> request \<Rightarrow> query_context handler" where
  "get_query_info env rq =
     (case rq_queries rq of
        [] \<Rightarrow> st_lift (\<lambda>_. Inl NoQueryInRequest)
      | (name, qt) # _ \<Rightarrow>
          st_return \<lparr>qc_name = normal_name name, qc_qtype = qt, qc_start = en_start env\<rparr>)"

section \<open>Sending and logging\<close>

definition send_response :: "handler_env \<Rightarrow> response \<Rightarrow> header handler" where
  "send_response env resp h =
     (if en_send_ok env then (Inr (rs_header resp), h\<lparr>dh_sent := dh_sent h @ [resp]\<rparr>)
      else (Inl SendResponseFailed, h))"

definition log_query :: "handler_env \<Rightarrow> request \<Rightarrow> query_context \<Rightarrow> log_context \<Rightarrow> unit handler" where
  "log_query env rq query ctx =
     st_modify (\<lambda>h.
       if lg_enable (cf_logging (dh_config h)) then
         h\<lparr>dh_logger := log_entry
             \<lparr>le_client_ip = rq_src rq, le_domain = qc_name query, le_query_type = qc_qtype query,
              le_action = lc_action ctx, le_source_id = lc_source_id ctx,
              le_upstream = lc_upstream ctx,
              le_latency_ms = duration_as_millis (en_logged env - qc_start query),
              le_ttl_remaining = lc_ttl_remaining ctx\<rparr> (dh_logger h)\<rparr>
       else h)"

definition answer_header :: "handler_env \<Rightarrow> request \<Rightarrow> header" where
  "answer_header env rq = (en_response_header env (rq_header rq))\<lparr>hd_authoritative := False\<rparr>"

definition serve_records :: "handler_env \<Rightarrow> request \<Rightarrow> dns_record list \<Rightarrow> query_context \<Rightarrow> log_context
    \<Rightarrow> header handler" where
  "serve_records env rq records query ctx =
     st_bind (send_response env \<lparr>rs_header = answer_header env rq, rs_answers = records\<rparr>) (\<lambda>info.
     st_bind (log_query env rq query ctx) (\<lambda>_.
     st_return info))"

definition serve_error :: "handler_env \<Rightarrow> request \<Rightarrow> rcode \<Rightarrow> query_context \<Rightarrow> log_context \<Rightarrow> header handler" where
  "serve_error env rq code query ctx =
     st_bind (send_response env
       \<lparr>rs_header = (answer_header env rq)\<lparr>hd_rcode := code\<rparr>, rs_answers = []\<rparr>) (\<lambda>info.
     st_bind (log_query env rq query ctx) (\<lambda>_.
     st_return info))"

definition on_stats :: "(stats \<Rightarrow> stats) \<Rightarrow> unit handler" where
  "on_stats f = st_modify (\<lambda>h. h\<lparr>dh_stats := f (dh_stats h)\<rparr>)"

definition blocked_record :: "handler_env \<Rightarrow> query_context \<Rightarrow> dns_record option" where
  "blocked_record env query =
     (let name = (case en_parse_name env (qc_name query) of Some n \<Rightarrow> n | None \<Rightarrow> en_default_name env) in
      case qc_qtype query of
        RT_A \<Rightarrow> Some (from_rdata name 60 (RD_A 0))
      | RT_AAAA \<Rightarrow> Some (from_rdata name 60 (RD_AAAA 0))
      | RT_Other _ \<Rightarrow> None)"

definition serve_blocked :: "handler_env \<Rightarrow> request \<Rightarrow> query_context \<Rightarrow> u8 \<Rightarrow> header handler" where
  "serve_blocked env rq query source_id =
     (let ctx = \<lparr>lc_action = Blocked, lc_source_id = Some source_id, lc_upstream = None,
                 lc_ttl_remaining = None\<rparr> in
      st_bind (on_stats (inc_blocked_by_source source_id)) (\<lambda>_.
      st_bind (on_stats (inc_client_block (rq_src rq))) (\<lambda>_.
      st_bind (on_stats (inc_domain_block (qc_name query))) (\<lambda>_.
      case blocked_record env query of
        Some record \<Rightarrow> serve_records env rq [record] query ctx
      | None \<Rightarrow> serve_error env rq NXDomain query ctx))))"

section \<open>The steps of a request\<close>

text \<open>\<open>Err(response_handle)\<close>, the request goes on, is \<open>None\<close>.\<close>

definition handle_local_records :: "handler_env \<Rightarrow> request \<Rightarrow> query_context \<Rightarrow> header option handler" where
  "handle_local_records env rq query =
     st_bind (st_lift (\<lambda>h. Inr (dh_local_records h (qc_name query)))) (\<lambda>found.
     case found of
       Some records \<Rightarrow>
         if records \<noteq> [] \<and> record_type (hd records) = qc_qtype query then
           st_bind (serve_records env rq records query
             \<lparr>lc_action = Local, lc_source_id = None, lc_upstream = Some ''local-config'',
              lc_ttl_remaining = None\<rparr>) (\<lambda>info. st_return (Some info))
         else st_return None
     | None \<Rightarrow> st_return None)"

definition handle_blocked_request :: "handler_env \<Rightarrow> request \<Rightarrow> query_context \<Rightarrow> header option handler" where
  "handle_blocked_request env rq query =
     st_bind (st_lift (\<lambda>h. is_blocking_active (en_pause_check env) (dh_app_state h))) (\<lambda>active.
     if \<not> active then st_return None
     else st_bind (st_lift (\<lambda>h. Inr (check_blocklist (qc_name query) h))) (\<lambda>found.
       case found of
         Some source_id \<Rightarrow>
           st_bind (serve_blocked env rq query source_id) (\<lambda>info. st_return (Some info))
       | None \<Rightarrow> st_return None))"

definition spawn_refresh :: "cache_key \<Rightarrow> unit handler" where
  "spawn_refresh key = st_modify (\<lambda>h. h\<lparr>dh_spawned := dh_spawned h @ [key]\<rparr>)"

definition handle_cached_response :: "handler_env \<Rightarrow> request \<Rightarrow> query_context \<Rightarrow> header option handler" where
  "handle_cached_response env rq query =
     st_bind (st_lift (\<lambda>h. Inr (check_cache env (qc_name query) (qc_qtype query) h))) (\<lambda>found.
     case found of
       Some (records, is_stale, ttl) \<Rightarrow>
         st_bind (on_stats inc_cache_hit) (\<lambda>_.
         st_bind (if is_stale then spawn_refresh (qc_name query, qc_qtype query) else st_return ()) (\<lambda>_.
         st_bind (serve_records env rq records query
           \<lparr>lc_action = Cached, lc_source_id = None, lc_upstream = None, lc_ttl_remaining = ttl\<rparr>)
           (\<lambda>info. st_return (Some info))))
     | None \<Rightarrow> st_return None)"

definition resolve_and_serve :: "handler_env \<Rightarrow> request \<Rightarrow> query_context \<Rightarrow> header handler" where
  "resolve_and_serve env rq query =
     st_bind (resolve_and_cache env (qc_name query) (qc_qtype query)) (\<lambda>res.
     case res of
       Inr (records, upstream_name) \<Rightarrow>
         serve_records env rq records query
           \<lparr>lc_action = Forwarded, lc_source_id = None, lc_upstream = Some upstream_name,
            lc_ttl_remaining = None\<rparr>
     | Inl e \<Rightarrow>
         serve_error env rq ServFail query
           \<lparr>lc_action = Forwarded, lc_source_id = None, lc_upstream = Some (''error: '' @ e),
            lc_ttl_remaining = None\<rparr>)"

text \<open>
  The part of \<open>handle_request\<close> before the upstream is asked (everything in it is immediate): it
  answers, or leaves the query to be resolved.
\<close>

definition handle_until_resolve :: "handler_env \<Rightarrow> request \<Rightarrow> (header + query_context) handler" where
  "handle_until_resolve env rq =
     st_bind (on_stats inc_queries) (\<lambda>_.
     st_bind (on_stats (inc_client_query (rq_src rq))) (\<lambda>_.
     st_bind (get_query_info env rq) (\<lambda>query.
     st_bind (on_stats (inc_domain_query (qc_name query))) (\<lambda>_.
     st_bind (st_lift (\<lambda>h. Inr (cf_disable_ipv6 (dh_config h)))) (\<lambda>disable_ipv6.
     if disable_ipv6 \<and> qc_qtype query = RT_AAAA then
       st_bind (serve_records env rq [] query
         \<lparr>lc_action = Blocked, lc_source_id = None, lc_upstream = Some ''ipv6-disabled'',
          lc_ttl_remaining = None\<rparr>) (\<lambda>info. st_return (Inl info))
     else
       st_bind (handle_local_records env rq query) (\<lambda>r.
       case r of Some info \<Rightarrow> st_return (Inl info) | None \<Rightarrow>
       st_bind (handle_blocked_request env rq query) (\<lambda>r.
       case r of Some info \<Rightarrow> st_return (Inl info) | None \<Rightarrow>
       st_bind (handle_cached_response env rq query) (\<lambda>r.
       case r of Some info \<Rightarrow> st_return (Inl info) | None \<Rightarrow>
       st_return (Inr query)))))))))"

definition handle_request :: "handler_env \<Rightarrow> request \<Rightarrow> header handler" where
  "handle_request env rq =
     st_bind (handle_until_resolve env rq) (\<lambda>r.
     case r of
       Inl info \<Rightarrow> st_return info
     | Inr query \<Rightarrow> resolve_and_serve env rq query)"

text \<open>A spawned task: it resolves the key again and drops the result; a panic ends only the task.\<close>

definition background_refresh :: "handler_env \<Rightarrow> dns_handler \<Rightarrow> dns_handler" where
  "background_refresh env h =
     (case dh_spawned h of
        [] \<Rightarrow> h
      | (name, qt) # rest \<Rightarrow> snd (resolve_and_cache env name qt (h\<lparr>dh_spawned := rest\<rparr>)))"

end
