(* ===== verification/Main_Model.thy ===== *)
theory Main_Model
  imports Upstream_Setup Blocklist_Manager Api_Server Dns_Handler
begin

text \<open>
  \<open>src/init.rs\<close> and \<open>src/main.rs\<close>: the start-up, which wires the components together, and the
  updater, the task that refreshes the blocklists.

  What the start-up finds outside is the record \<open>boot_env\<close>: the command line, the files, the
  database engine, the network and the clocks.
\<close>

section \<open>Logging setup\<close>

text \<open>
  The filter text handed to the tracing library: the environment's if it is valid, otherwise the
  configured level with two noisy crates silenced unless mentioned.
\<close>

definition log_filter :: "string \<Rightarrow> string" where
  "log_filter level =
     (let f = level;
          f = (if \<not> str_contains f ''hickory_server'' then f @ '',hickory_server=off'' else f);
          f = (if \<not> str_contains f ''hickory_proto'' then f @ '',hickory_proto=off'' else f)
      in f)"

definition setup_logging :: "string option \<Rightarrow> config \<Rightarrow> string" where
  "setup_logging default_env c =
     (case default_env of Some f \<Rightarrow> f | None \<Rightarrow> log_filter (lg_level (cf_logging c)))"

section \<open>The environment of the start-up\<close>

record boot_env =
  be_args :: "string list"
  be_exists :: "string \<Rightarrow> bool"
  be_read_file :: "string \<Rightarrow> string + string"
  be_parse_toml :: "string \<Rightarrow> string + raw_config"
  be_client_conn :: connection_env
  be_writer_conn :: connection_env
  be_db_file :: "string \<Rightarrow> db"
  be_fails :: "stmt \<Rightarrow> bool"
  be_net :: net
  be_uni :: "string \<Rightarrow> string"
  be_get :: http_get
  be_order :: "nat list"
  be_parse_name :: "string \<Rightarrow> string option"
  be_now :: instant
  be_wall :: systemtime

section \<open>Start-up\<close>

definition load_config :: "boot_env \<Rightarrow> (string \<times> string) + (config \<times> string)" where
  "load_config b =
     (let config_path = (case opt_index (be_args b) 1 of Some p \<Rightarrow> p | None \<Rightarrow> ''config.toml'') in
      if be_exists b config_path
      then res_bind (load (be_read_file b) (be_parse_toml b) config_path) (\<lambda>c. Inr (c, config_path))
      else Inr (config_default, config_path))"

definition init_app_stats :: "config \<Rightarrow> instant \<Rightarrow> stats \<times> string list" where
  "init_app_stats c now =
     (let blocklist_names = map fst (get_blocklists_sorted c)
      in (stats_new (sc_log_interval_seconds (cf_stats c)) (cf_upstream_servers c) blocklist_names now,
          blocklist_names))"

definition init_sqlite_db :: "boot_env \<Rightarrow> config \<Rightarrow> db option" where
  "init_sqlite_db b c =
     (if ''sqlite'' \<notin> set (lg_query_log_sinks (cf_logging c)) then None
      else case db_client_new (be_client_conn b) (be_db_file b) (lg_sqlite_path (cf_logging c)) of
        Inl e \<Rightarrow> None
      | Inr d \<Rightarrow> (case initialize (be_fails b) d of (Inl e, d') \<Rightarrow> None | (Inr _, d') \<Rightarrow> Some d'))"

definition init_query_logger :: "config \<Rightarrow> string list \<Rightarrow> db option \<Rightarrow> sink option \<Rightarrow> systemtime \<Rightarrow> query_logger" where
  "init_query_logger c blocklist_names log_writer memory_sink now =
     query_logger_new (cf_logging c) blocklist_names
       (case memory_sink of Some s \<Rightarrow> [s] | None \<Rightarrow> []) log_writer now"

text \<open>
  The data source of the API, as a handle: to the table, as the connection first sees it, or to the
  collector and the ring buffer, which the handler and the logger own.
\<close>

datatype source_handle = PersistentSource db | InMemorySource

definition create_persistent_source :: "db \<Rightarrow> source_handle" where
  "create_persistent_source client = PersistentSource client"

definition create_memory_source :: "sink option \<times> source_handle" where
  "create_memory_source = (Some (MemorySink (memory_new 100)), InMemorySource)"

definition init_pipeline :: "boot_env \<Rightarrow> config \<Rightarrow> string list \<Rightarrow> source_handle \<times> query_logger" where
  "init_pipeline b c blocklist_names =
     (case init_sqlite_db b c of
        Some client \<Rightarrow>
          let log_writer = (case log_writer_new (be_writer_conn b) client (lg_sqlite_path (cf_logging c)) of
                Inr w \<Rightarrow> Some w | Inl e \<Rightarrow> None)
          in (create_persistent_source client, init_query_logger c blocklist_names log_writer None (be_wall b))
      | None \<Rightarrow>
          (case create_memory_source of
             (sink, source) \<Rightarrow> (source, init_query_logger c blocklist_names None sink (be_wall b))))"

text \<open>\<open>main\<close>, up to the tasks and the server it starts: they run on the state it returns.\<close>

definition boot :: "boot_env \<Rightarrow> string + (config \<times> source_handle \<times> dns_handler)" where
  "boot b =
     (case load_config b of
        Inl (ctx, e) \<Rightarrow> Inl ctx
      | Inr (c, config_path) \<Rightarrow>
          (case init_app_stats c (be_now b) of (st, blocklist_names) \<Rightarrow>
           case init_pipeline b c blocklist_names of (source, logger) \<Rightarrow>
           let initial_matcher = refresh (be_uni b) (be_get b) (be_order b) c
           in case create_resolver (be_net b) c of
                Inl e \<Rightarrow> Inl e
              | Inr r \<Rightarrow> Inr (c, source,
                  dns_handler_new (be_parse_name b) c st logger initial_matcher r app_state_new)))"

text \<open>
  The end of \<open>main\<close>: the server's address must be a literal one, or the program panics; it ends with
  an error when a socket cannot be bound, and otherwise when it is stopped.
\<close>

record server_env =
  sv_parse_host :: "string \<Rightarrow> ip option"
  sv_bind_udp :: "ip \<times> u16 \<Rightarrow> string + unit"
  sv_bind_tcp :: "ip \<times> u16 \<Rightarrow> string + unit"

definition server_addr :: "server_env \<Rightarrow> config \<Rightarrow> (ip \<times> u16) outcome" where
  "server_addr sv c =
     (case sv_parse_host sv (cf_host c) of
        Some addr \<Rightarrow> Inr (addr, cf_port c)
      | None \<Rightarrow> Inl (UnwrapFailed ''host''))"

definition run_server :: "server_env \<Rightarrow> config \<Rightarrow> (string + unit) outcome" where
  "run_server sv c =
     res_bind (server_addr sv c) (\<lambda>addr.
       Inr (res_bind (sv_bind_udp sv addr) (\<lambda>_. sv_bind_tcp sv addr)))"

text \<open>A host that is a name, not an address, panics the program, after its tasks were started.\<close>

theorem host_name_panics:
  "run_server sv c = Inl p \<longleftrightarrow> sv_parse_host sv (cf_host c) = None \<and> p = UnwrapFailed ''host''"
  by (auto simp: run_server_def server_addr_def split: option.split)

definition main_result :: "boot_env \<Rightarrow> server_env \<Rightarrow> (string + unit) outcome" where
  "main_result b sv =
     (case boot b of
        Inl e \<Rightarrow> Inr (Inl e)
      | Inr (c, source, handler) \<Rightarrow> run_server sv c)"

section \<open>The updater\<close>

text \<open>The updater's state is its timer; the first tick, which is immediate, is awaited before the loop.\<close>

type_synonym updater = timer

definition update_interval :: "config \<Rightarrow> duration" where
  "update_interval c = duration_from_secs (uc_interval_hours (cf_updates c) * 3600)"

definition start_updater :: "instant \<Rightarrow> config \<Rightarrow> updater outcome" where
  "start_updater now c =
     res_bind (interval_new now (update_interval c)) (\<lambda>interval. Inr (tick interval))"

text \<open>
  One \<open>select!\<close>: it waits (\<open>None\<close>) until a tick is due, a message is there, or no sender is left
  (\<open>recv\<close> then yields at once); when both branches are ready either may be taken, the choice
  \<open>prefer_tick\<close>.
\<close>

definition updater_wake :: "instant \<Rightarrow> bool \<Rightarrow> bool \<Rightarrow> updater \<Rightarrow> unit channel \<Rightarrow> (updater \<times> unit channel) option" where
  "updater_wake now prefer_tick sender_alive u refresh_rx =
     (let recv_ready = (ch_queue refresh_rx \<noteq> [] \<or> \<not> sender_alive)
      in if tick_due now u \<and> (prefer_tick \<or> \<not> recv_ready) then Some (tick u, refresh_rx)
         else if recv_ready then Some (timer_reset now u, snd (recv refresh_rx))
         else None)"

text \<open>What follows a wake-up: the lists are downloaded and the matcher is swapped.\<close>

definition updater_swap :: "(string \<Rightarrow> string) \<Rightarrow> http_get \<Rightarrow> nat list \<Rightarrow> config \<Rightarrow> dns_handler \<Rightarrow> dns_handler" where
  "updater_swap uni get order c h = snd (update_blocklist (refresh uni get order c) h)"

text \<open>A turn of the loop.\<close>

definition updater_turn :: "(string \<Rightarrow> string) \<Rightarrow> http_get \<Rightarrow> nat list \<Rightarrow> config \<Rightarrow> instant \<Rightarrow> bool \<Rightarrow> bool
    \<Rightarrow> updater \<Rightarrow> unit channel \<Rightarrow> dns_handler \<Rightarrow> (updater \<times> unit channel \<times> dns_handler) option" where
  "updater_turn uni get order c now prefer_tick sender_alive u refresh_rx h =
     (case updater_wake now prefer_tick sender_alive u refresh_rx of
        None \<Rightarrow> None
      | Some (u', rx) \<Rightarrow> Some (u', rx, updater_swap uni get order c h))"

section \<open>Lemmas\<close>

lemma update_blocklist_state [simp]: "snd (update_blocklist m h) = h\<lparr>dh_blocklist := m\<rparr>"
  by (simp add: update_blocklist_def st_modify_def)

lemma updater_swap_state [simp]:
  "updater_swap uni get order c h = h\<lparr>dh_blocklist := refresh uni get order c\<rparr>"
  by (simp add: updater_swap_def)

lemma log_filter_mentions:
  "str_contains (log_filter level) ''hickory_server'' \<and> str_contains (log_filter level) ''hickory_proto''"
proof -
  have a: "str_contains ('',hickory_server=off'' :: string) ''hickory_server''"
    "str_contains ('',hickory_proto=off'' :: string) ''hickory_proto''"
    by (simp_all add: prefix_def)
  show ?thesis
    using a by (auto simp: log_filter_def Let_def intro: str_contains_append str_contains_append_right)
qed

definition is_sqlite :: "sink_task \<Rightarrow> bool" where
  "is_sqlite t \<longleftrightarrow> (case tk_sink t of SqliteSink _ \<Rightarrow> True | _ \<Rightarrow> False)"

lemma is_sqlite_simps [simp]:
  "is_sqlite (spawn_sink (SqliteSink q))" "\<not> is_sqlite (spawn_sink (ConsoleSink k))"
  "\<not> is_sqlite (spawn_sink (MemorySink m))"
  by (simp_all add: is_sqlite_def spawn_sink_def)

lemma configured_sinks_no_writer:
  "filter is_sqlite (configured_sinks c names now types None) = []"
  by (induction types) simp_all

lemma configured_sinks_sqlite:
  "length (filter is_sqlite (configured_sinks c names now types w)) =
     (if w \<noteq> None \<and> ''sqlite'' \<in> set types then 1 else 0)"
proof (induction types)
  case (Cons a types)
  then show ?case
    by (cases w; cases "''sqlite'' \<in> set types") (simp_all add: configured_sinks_no_writer)
qed simp

lemma configured_sinks_no_ring:
  "t \<in> set (configured_sinks c names now types w) \<Longrightarrow> tk_sink t \<noteq> MemorySink m"
  by (induction c names now types w rule: configured_sinks.induct)
    (auto simp: spawn_sink_def split: if_splits option.splits)

section \<open>Properties\<close>

text \<open>
  The API reads what the logger writes: with the table as its source, the logger feeds exactly
  one database sink (when the writing connection could be opened) and no ring buffer; without it,
  there is no database sink and the last of the logger's sinks is the ring buffer of a hundred.
\<close>

theorem pipeline_matches_source:
  "case init_pipeline b c names of (source, logger) \<Rightarrow>
     source = (case init_sqlite_db b c of Some d \<Rightarrow> PersistentSource d | None \<Rightarrow> InMemorySource)
     \<and> length (filter is_sqlite logger) =
         (if source \<noteq> InMemorySource
             \<and> \<not> isl (open_connection (be_writer_conn b) (lg_sqlite_path (cf_logging c))) then 1 else 0)
     \<and> filter (\<lambda>t. case tk_sink t of MemorySink _ \<Rightarrow> True | _ \<Rightarrow> False) logger =
         (if source = InMemorySource then [spawn_sink (MemorySink (memory_new 100))] else [])"
proof -
  let ?ring = "\<lambda>t. case tk_sink t of MemorySink _ \<Rightarrow> True | _ \<Rightarrow> False"
  have ring: "filter ?ring (configured_sinks lc names now types w) = []" for lc now types w
    using configured_sinks_no_ring by (fastforce simp: filter_empty_conv split: sink.splits)
  have sq: "init_sqlite_db b c \<noteq> None \<Longrightarrow> ''sqlite'' \<in> set (lg_query_log_sinks (cf_logging c))"
    by (auto simp: init_sqlite_db_def split: if_splits)
  show ?thesis
  proof (cases "init_sqlite_db b c")
    case None
    then show ?thesis
      by (simp add: init_pipeline_def create_memory_source_def init_query_logger_def
          query_logger_new_def ring configured_sinks_no_writer) (simp add: spawn_sink_def)
  next
    case (Some d)
    with sq show ?thesis
      by (cases "open_connection (be_writer_conn b) (lg_sqlite_path (cf_logging c))")
        (simp_all add: init_pipeline_def create_persistent_source_def init_query_logger_def
          log_writer_new_def query_logger_new_def ring configured_sinks_sqlite
          configured_sinks_no_writer Let_def)
  qed
qed

text \<open>
  The updater between ticks. With the sender alive it wakes exactly when a tick is due or a refresh
  was asked for; either way the active matcher becomes that of a fresh download, and after a request
  the next tick is a full period away.
\<close>

theorem updater_refreshes_on_demand:
  assumes "fst (try_send () ch) = Sent"
  shows "\<exists>u' rx'. updater_turn uni get order c now prefer True u (snd (try_send () ch)) h =
      Some (u', rx', h\<lparr>dh_blocklist := refresh uni get order c\<rparr>)
    \<and> (now < tm_next u \<longrightarrow> tm_next u' = now + tm_period u)
    \<and> (updater_wake now prefer True u (channel_new 1) = None \<longleftrightarrow> now < tm_next u)"
  using assms
  by (auto simp: updater_turn_def updater_wake_def tick_due_def Let_def try_send_def channel_new_def split: if_splits)

theorem updater_refreshes_on_demand_witness:
  "\<forall>uni get h. \<exists>u' rx'. updater_turn uni get [] config_default 5 False True
      \<lparr>tm_period = 100, tm_next = 100\<rparr> (snd (try_send () (channel_new 1))) h =
    Some (u', rx', h\<lparr>dh_blocklist := refresh uni get [] config_default\<rparr>)"
proof -
  have "fst (try_send () (channel_new 1)) = Sent" by (simp add: try_send_def channel_new_def)
  from updater_refreshes_on_demand [OF this] show ?thesis by blast
qed

fun updater_turns :: "nat \<Rightarrow> (string \<Rightarrow> string) \<Rightarrow> http_get \<Rightarrow> nat list \<Rightarrow> config \<Rightarrow> instant
    \<Rightarrow> updater \<times> unit channel \<times> dns_handler \<Rightarrow> (updater \<times> unit channel \<times> dns_handler) option" where
  "updater_turns 0 uni get order c now s = Some s"
| "updater_turns (Suc n) uni get order c now (u, ch, h) =
     Option.bind (updater_turn uni get order c now False False u ch h) (updater_turns n uni get order c now)"

lemma updater_turn_closed:
  "updater_turn uni get order c now prefer False u ch h \<noteq> None"
  by (simp add: updater_turn_def updater_wake_def Let_def)

text \<open>
  C39. When the API task ends (its port is taken, say) the only sender is gone, and the updater never
  waits again: for every number of turns, that many are made at one and the same instant, each of
  them downloading every list anew.
\<close>

theorem updater_spins_without_sender:
  "\<exists>u' ch'. updater_turns n uni get order c now (u, ch, h) =
     Some (u', ch', if n = 0 then h else h\<lparr>dh_blocklist := refresh uni get order c\<rparr>)"
proof (induction n arbitrary: u ch h)
  case (Suc n)
  obtain u1 ch1 where turn: "updater_turn uni get order c now False False u ch h =
      Some (u1, ch1, h\<lparr>dh_blocklist := refresh uni get order c\<rparr>)"
    using updater_turn_closed [of uni get order c now False u ch h]
    by (auto simp: updater_turn_def split: option.splits)
  from Suc.IH [of u1 ch1 "h\<lparr>dh_blocklist := refresh uni get order c\<rparr>"] show ?case
    by (auto simp: turn)
qed simp

text \<open>
  Some intervals turn updates off for good: zero hours, or a number of hours whose seconds are a
  multiple of \<open>2 ^ 64\<close>, panics in the timer, so the updater and its end of the channel are gone, and
  a refresh asked for over the API is confirmed without any effect.
\<close>

theorem zero_interval_disables_updates:
  assumes "(2 ^ 64 :: nat) dvd unat (uc_interval_hours (cf_updates c)) * 3600"
  shows "start_updater now c = Inl ZeroPeriod
    \<and> trigger_refresh (close_channel ch) =
        (Some (JObj [(''status'', JStr ''refresh_triggered'')]), close_channel ch)"
proof -
  have "unat (uc_interval_hours (cf_updates c) * 3600) = 0"
    using assms by (simp add: unat_word_ariths dvd_imp_mod_0)
  then show ?thesis
    by (simp add: start_updater_def interval_new_def update_interval_def duration_from_secs_def trigger_refresh_def
        try_send_def close_channel_def)
qed

theorem zero_interval_disables_updates_witness:
  "let c = config_default\<lparr>cf_updates := (cf_updates config_default)\<lparr>uc_interval_hours := 2 ^ 60\<rparr>\<rparr>
   in start_updater 0 c = Inl ZeroPeriod"
proof -
  let ?c = "config_default\<lparr>cf_updates := (cf_updates config_default)\<lparr>uc_interval_hours := 2 ^ 60\<rparr>\<rparr>"
  have "(2 ^ 64 :: nat) dvd unat (uc_interval_hours (cf_updates ?c)) * 3600" by simp
  from zero_interval_disables_updates [OF this] show ?thesis by simp
qed

end
