(* ===== verification/Handler_Spec.thy ===== *)
theory Handler_Spec
  imports Dns_Handler
begin

text \<open>
  What the request handler promises: one decision for each query, taken in a fixed order, and for
  each decision the response, the log entry and the counters. \<open>Dns_Handler\<close> is shown to implement
  it; the properties of the handler are read off here.
\<close>

section \<open>The decision\<close>

datatype decision =
    Filtered
  | LocalAnswer "dns_record list"
  | Poisoned
  | BlockedBy u8
  | FromCache "dns_record list" bool "u64 option"
  | ToUpstream

definition query_of :: "handler_env \<Rightarrow> request \<Rightarrow> query_context" where
  "query_of env rq = \<lparr>qc_name = normal_name (fst (hd (rq_queries rq))),
     qc_qtype = snd (hd (rq_queries rq)), qc_start = en_start env\<rparr>"

definition local_answer :: "dns_handler \<Rightarrow> string \<Rightarrow> rtype \<Rightarrow> dns_record list option" where
  "local_answer h name qt =
     (case dh_local_records h name of
        Some rs \<Rightarrow> if rs \<noteq> [] \<and> record_type (hd rs) = qt then Some rs else None
      | None \<Rightarrow> None)"

definition decide :: "handler_env \<Rightarrow> query_context \<Rightarrow> dns_handler \<Rightarrow> decision" where
  "decide env q h =
     (if cf_disable_ipv6 (dh_config h) \<and> qc_qtype q = RT_AAAA then Filtered
      else case local_answer h (qc_name q) (qc_qtype q) of
        Some rs \<Rightarrow> LocalAnswer rs
      | None \<Rightarrow>
          (case is_blocking_active (en_pause_check env) (dh_app_state h) of
             Inl p \<Rightarrow> Poisoned
           | Inr active \<Rightarrow>
               (case if active then check (dh_blocklist h) (qc_name q) else None of
                  Some i \<Rightarrow> BlockedBy i
                | None \<Rightarrow>
                    (case check_cache env (qc_name q) (qc_qtype q) h of
                       Some (rs, stale, ttl) \<Rightarrow> FromCache rs stale ttl
                     | None \<Rightarrow> ToUpstream))))"

section \<open>What each decision leads to\<close>

fun answers_for :: "handler_env \<Rightarrow> query_context \<Rightarrow> decision \<Rightarrow> dns_record list" where
  "answers_for env q (LocalAnswer rs) = rs"
| "answers_for env q (BlockedBy i) = (case blocked_record env q of Some r \<Rightarrow> [r] | None \<Rightarrow> [])"
| "answers_for env q (FromCache rs stale ttl) = rs"
| "answers_for env q d = []"

definition header_for :: "handler_env \<Rightarrow> request \<Rightarrow> query_context \<Rightarrow> decision \<Rightarrow> header" where
  "header_for env rq q d =
     (case d of
        BlockedBy i \<Rightarrow>
          (case blocked_record env q of
             Some r \<Rightarrow> answer_header env rq
           | None \<Rightarrow> (answer_header env rq)\<lparr>hd_rcode := NXDomain\<rparr>)
      | _ \<Rightarrow> answer_header env rq)"

fun log_for :: "decision \<Rightarrow> log_context" where
  "log_for Filtered = \<lparr>lc_action = Blocked, lc_source_id = None, lc_upstream = Some ''ipv6-disabled'',
     lc_ttl_remaining = None\<rparr>"
| "log_for (LocalAnswer rs) = \<lparr>lc_action = Local, lc_source_id = None, lc_upstream = Some ''local-config'',
     lc_ttl_remaining = None\<rparr>"
| "log_for (BlockedBy i) = \<lparr>lc_action = Blocked, lc_source_id = Some i, lc_upstream = None,
     lc_ttl_remaining = None\<rparr>"
| "log_for (FromCache rs stale ttl) = \<lparr>lc_action = Cached, lc_source_id = None, lc_upstream = None,
     lc_ttl_remaining = ttl\<rparr>"
| "log_for d = \<lparr>lc_action = Forwarded, lc_source_id = None, lc_upstream = None, lc_ttl_remaining = None\<rparr>"

fun stats_for :: "request \<Rightarrow> query_context \<Rightarrow> decision \<Rightarrow> stats \<Rightarrow> stats" where
  "stats_for rq q (BlockedBy i) st =
     inc_domain_block (qc_name q) (inc_client_block (rq_src rq) (inc_blocked_by_source i st))"
| "stats_for rq q (FromCache rs stale ttl) st = inc_cache_hit st"
| "stats_for rq q d st = st"

fun spawned_for :: "query_context \<Rightarrow> decision \<Rightarrow> cache_key list" where
  "spawned_for q (FromCache rs True ttl) = [(qc_name q, qc_qtype q)]"
| "spawned_for q d = []"

definition entry_for :: "handler_env \<Rightarrow> request \<Rightarrow> query_context \<Rightarrow> log_context \<Rightarrow> query_log_entry" where
  "entry_for env rq q ctx =
     \<lparr>le_client_ip = rq_src rq, le_domain = qc_name q, le_query_type = qc_qtype q,
      le_action = lc_action ctx, le_source_id = lc_source_id ctx, le_upstream = lc_upstream ctx,
      le_latency_ms = duration_as_millis (en_logged env - qc_start q),
      le_ttl_remaining = lc_ttl_remaining ctx\<rparr>"

text \<open>A response sent and its entry logged.\<close>

definition answered :: "response \<Rightarrow> query_log_entry \<Rightarrow> dns_handler \<Rightarrow> dns_handler" where
  "answered resp e h = h\<lparr>dh_sent := dh_sent h @ [resp],
     dh_logger := (if lg_enable (cf_logging (dh_config h)) then log_entry e (dh_logger h) else dh_logger h)\<rparr>"

definition counted :: "request \<Rightarrow> query_context \<Rightarrow> dns_handler \<Rightarrow> dns_handler" where
  "counted rq q h = h\<lparr>dh_stats :=
     inc_domain_query (qc_name q) (inc_client_query (rq_src rq) (inc_queries (dh_stats h)))\<rparr>"

text \<open>What a decision does before its response is sent.\<close>

definition effects :: "request \<Rightarrow> query_context \<Rightarrow> decision \<Rightarrow> dns_handler \<Rightarrow> dns_handler" where
  "effects rq q d h =
     h\<lparr>dh_stats := stats_for rq q d (dh_stats h), dh_spawned := dh_spawned h @ spawned_for q d\<rparr>"

definition carried_out :: "handler_env \<Rightarrow> request \<Rightarrow> query_context \<Rightarrow> decision \<Rightarrow> dns_handler \<Rightarrow> dns_handler" where
  "carried_out env rq q d h =
     answered \<lparr>rs_header = header_for env rq q d, rs_answers = answers_for env q d\<rparr>
       (entry_for env rq q (log_for d)) (effects rq q d h)"

definition immediate :: "decision \<Rightarrow> bool" where
  "immediate d \<longleftrightarrow> d \<noteq> Poisoned \<and> d \<noteq> ToUpstream"

section \<open>The handler's methods in closed form\<close>

lemma serve_records_eq:
  "serve_records env rq rs q ctx h =
     (if en_send_ok env then
        (Inr (answer_header env rq),
         answered \<lparr>rs_header = answer_header env rq, rs_answers = rs\<rparr> (entry_for env rq q ctx) h)
      else (Inl SendResponseFailed, h))"
  by (simp add: serve_records_def send_response_def log_query_def st_defs answered_def entry_for_def)

lemma serve_error_eq:
  "serve_error env rq code q ctx h =
     (if en_send_ok env then
        (Inr ((answer_header env rq)\<lparr>hd_rcode := code\<rparr>),
         answered \<lparr>rs_header = (answer_header env rq)\<lparr>hd_rcode := code\<rparr>, rs_answers = []\<rparr>
           (entry_for env rq q ctx) h)
      else (Inl SendResponseFailed, h))"
  by (simp add: serve_error_def send_response_def log_query_def st_defs answered_def entry_for_def)

lemmas serve_eqs = serve_records_eq serve_error_eq

lemma serve_blocked_eq:
  "serve_blocked env rq q i h =
     (if en_send_ok env
      then (Inr (header_for env rq q (BlockedBy i)), carried_out env rq q (BlockedBy i) h)
      else (Inl SendResponseFailed, effects rq q (BlockedBy i) h))"
  by (cases "blocked_record env q")
    (simp_all add: serve_blocked_def Let_def on_stats_def st_bind_def st_modify_def serve_eqs
      header_for_def carried_out_def effects_def)

lemma handle_local_records_eq:
  "handle_local_records env rq q h =
     (case local_answer h (qc_name q) (qc_qtype q) of
        Some rs \<Rightarrow>
          if en_send_ok env
          then (Inr (Some (header_for env rq q (LocalAnswer rs))), carried_out env rq q (LocalAnswer rs) h)
          else (Inl SendResponseFailed, effects rq q (LocalAnswer rs) h)
      | None \<Rightarrow> (Inr None, h))"
  by (simp add: handle_local_records_def local_answer_def st_bind_def st_lift_def st_return_def
      serve_records_eq header_for_def carried_out_def effects_def split: option.split)

lemma handle_blocked_request_eq:
  "handle_blocked_request env rq q h =
     (case is_blocking_active (en_pause_check env) (dh_app_state h) of
        Inl p \<Rightarrow> (Inl p, h)
      | Inr active \<Rightarrow>
          (case if active then check (dh_blocklist h) (qc_name q) else None of
             Some i \<Rightarrow>
               if en_send_ok env
               then (Inr (Some (header_for env rq q (BlockedBy i))), carried_out env rq q (BlockedBy i) h)
               else (Inl SendResponseFailed, effects rq q (BlockedBy i) h)
           | None \<Rightarrow> (Inr None, h)))"
  by (simp add: handle_blocked_request_def check_blocklist_def st_bind_def st_lift_def st_return_def
      serve_blocked_eq split: option.split sum.split)

lemma handle_cached_response_eq:
  "handle_cached_response env rq q h =
     (case check_cache env (qc_name q) (qc_qtype q) h of
        Some (rs, stale, ttl) \<Rightarrow>
          if en_send_ok env
          then (Inr (Some (header_for env rq q (FromCache rs stale ttl))),
                carried_out env rq q (FromCache rs stale ttl) h)
          else (Inl SendResponseFailed, effects rq q (FromCache rs stale ttl) h)
      | None \<Rightarrow> (Inr None, h))"
  by (simp add: handle_cached_response_def on_stats_def spawn_refresh_def st_bind_def st_lift_def
      st_return_def st_modify_def serve_records_eq header_for_def carried_out_def effects_def
      split: option.split prod.split)

lemma decide_counted [simp]: "decide env q (counted rq q' h) = decide env q h"
  unfolding decide_def counted_def local_answer_def check_cache_def dns_handler.select_convs
    dns_handler.update_convs dns_handler.ext_inject
  by (simp cong: option.case_cong sum.case_cong if_cong)

lemma is_blocking_active_panic: "is_blocking_active now app = Inl p \<Longrightarrow> p = LockPoisoned"
  by (auto simp: is_blocking_active_def rw_read_def split: if_splits option.splits)

lemma handle_until_resolve_cases:
  assumes "rq_queries rq \<noteq> []"
  shows "handle_until_resolve env rq h =
    (let q = query_of env rq; h1 = counted rq q h; d = decide env q h in
     case d of
       Poisoned \<Rightarrow> (Inl LockPoisoned, h1)
     | ToUpstream \<Rightarrow> (Inr (Inr q), h1)
     | _ \<Rightarrow>
         if en_send_ok env
         then (Inr (Inl (header_for env rq q d)), carried_out env rq q d h1)
         else (Inl SendResponseFailed, effects rq q d h1))"
proof -
  let ?q = "query_of env rq"
  obtain name qt qs where rq: "rq_queries rq = (name, qt) # qs"
    using assms by (metis list.exhaust surj_pair)
  have info: "get_query_info env rq = st_return ?q"
    by (simp add: get_query_info_def query_of_def rq)
  let ?h = "counted rq ?q h"
  have "handle_until_resolve env rq h =
    (if cf_disable_ipv6 (dh_config h) \<and> qc_qtype ?q = RT_AAAA then
       if en_send_ok env
       then (Inr (Inl (header_for env rq ?q Filtered)), carried_out env rq ?q Filtered ?h)
       else (Inl SendResponseFailed, effects rq ?q Filtered ?h)
     else
       st_bind (handle_local_records env rq ?q) (\<lambda>r.
       case r of Some info \<Rightarrow> st_return (Inl info) | None \<Rightarrow>
       st_bind (handle_blocked_request env rq ?q) (\<lambda>r.
       case r of Some info \<Rightarrow> st_return (Inl info) | None \<Rightarrow>
       st_bind (handle_cached_response env rq ?q) (\<lambda>r.
       case r of Some info \<Rightarrow> st_return (Inl info) | None \<Rightarrow>
       st_return (Inr ?q)))) ?h)"
    by (simp add: handle_until_resolve_def info on_stats_def)
      (simp add: st_bind_def st_modify_def st_lift_def st_return_def serve_records_eq counted_def
        header_for_def carried_out_def effects_def)
  also have "\<dots> =
    (case decide env ?q h of
       Poisoned \<Rightarrow> (Inl LockPoisoned, ?h)
     | ToUpstream \<Rightarrow> (Inr (Inr ?q), ?h)
     | d \<Rightarrow>
         if en_send_ok env
         then (Inr (Inl (header_for env rq ?q d)), carried_out env rq ?q d ?h)
         else (Inl SendResponseFailed, effects rq ?q d ?h))"
    unfolding decide_counted [of env ?q rq ?q h, symmetric] decide_def [of env ?q ?h]
    by (simp add: st_bind_def st_return_def handle_local_records_eq handle_blocked_request_eq
        handle_cached_response_eq counted_def [of rq ?q h] split: option.split sum.split prod.split)
      (auto dest: is_blocking_active_panic)
  finally show ?thesis by (simp add: Let_def split: decision.split)
qed

lemma handle_until_resolve_eq:
  assumes "rq_queries rq \<noteq> []" "en_send_ok env"
  shows "handle_until_resolve env rq h =
    (let q = query_of env rq; h1 = counted rq q h; d = decide env q h in
     case d of
       Poisoned \<Rightarrow> (Inl LockPoisoned, h1)
     | ToUpstream \<Rightarrow> (Inr (Inr q), h1)
     | _ \<Rightarrow> (Inr (Inl (header_for env rq q d)), carried_out env rq q d h1))"
  using assms(2) by (simp add: handle_until_resolve_cases [OF assms(1)] Let_def split: decision.split)

end
