(* ===== verification/Handler_Properties.thy ===== *)
theory Handler_Properties
  imports Handler_Spec
begin

text \<open>
  The properties of the request handler: its refinement of the decision of \<open>Handler_Spec\<close>, blocking,
  the life of a cache entry, upstream failures, names, and the two ways a query goes unanswered.
\<close>

section \<open>Resolution in closed form\<close>

definition kept_records :: "config \<Rightarrow> dns_record list \<Rightarrow> dns_record list" where
  "kept_records c rs = (if cf_disable_ipv6 c then filter (\<lambda>r. record_type r \<noteq> RT_AAAA) rs else rs)"

definition lifetime :: "config \<Rightarrow> dns_record list \<Rightarrow> u32" where
  "lifetime c rs = (if rs \<noteq> [] then max (record_min_ttl rs) (cc_min_ttl (cf_cache c)) else cc_min_ttl (cf_cache c))"

definition cache_entry :: "config \<Rightarrow> instant \<Rightarrow> dns_record list \<Rightarrow> cache_value" where
  "cache_entry c now rs =
     (let vu = now + unat (lifetime c rs) * ns_per_sec
      in (rs, vu, vu + unat (cc_grace_period_sec (cf_cache c)) * ns_per_sec))"

lemma unat_ucast_u32 [simp]: "unat (ucast (w :: u32) :: u64) = unat w"
  by transfer (simp add: take_bit_eq_mod)

lemma deadlines_eq:
  "deadlines now ttl grace =
     (if now + unat ttl * ns_per_sec + unat grace * ns_per_sec < instant_limit
      then Inr (now + unat ttl * ns_per_sec, now + unat ttl * ns_per_sec + unat grace * ns_per_sec)
      else Inl InstantOverflow)"
  by (simp add: deadlines_def instant_add_def duration_from_secs_def)

definition fits_clock :: "config \<Rightarrow> instant \<Rightarrow> dns_record list \<Rightarrow> bool" where
  "fits_clock c now rs \<longleftrightarrow> snd (snd (cache_entry c now rs)) < instant_limit"

lemma resolve_and_cache_eq:
  "resolve_and_cache env name qt h =
     (case resolve (dh_resolver h) (en_lookup env) name qt (dh_stats h) of
        (Inl p, r, st) \<Rightarrow> (Inl p, h\<lparr>dh_resolver := r, dh_stats := st\<rparr>)
      | (Inr (Inl e), r, st) \<Rightarrow> (Inr (Inl e), h\<lparr>dh_resolver := r, dh_stats := st\<rparr>)
      | (Inr (Inr (records, up)), r, st) \<Rightarrow>
          (let rs = kept_records (dh_config h) records;
               h' = h\<lparr>dh_resolver := r, dh_stats := st\<rparr>
           in if fits_clock (dh_config h) (en_insert env) rs
              then (Inr (Inr (rs, up)),
                    h'\<lparr>dh_cache := ((name, qt), cache_entry (dh_config h) (en_insert env) rs) # dh_cache h\<rparr>)
              else (Inl InstantOverflow, h')))"
proof -
  obtain res r st where l: "resolve (dh_resolver h) (en_lookup env) name qt (dh_stats h) = (res, r, st)"
    by (metis prod_cases3)
  show ?thesis
  proof (cases res)
    case (Inr x)
    then show ?thesis
      by (cases x)
        (auto simp: resolve_and_cache_def call_resolver_def l st_bind_def st_lift_def st_return_def
          cache_insert_def st_modify_def deadlines_eq fits_clock_def cache_entry_def kept_records_def
          lifetime_def Let_def)
  qed (simp add: resolve_and_cache_def call_resolver_def l st_bind_def)
qed

lemma resolve_and_serve_eq:
  assumes "en_send_ok env"
  shows "resolve_and_serve env rq q h =
    (case resolve_and_cache env (qc_name q) (qc_qtype q) h of
       (Inl p, h') \<Rightarrow> (Inl p, h')
     | (Inr (Inr (rs, up)), h') \<Rightarrow>
         (Inr (answer_header env rq),
          answered \<lparr>rs_header = answer_header env rq, rs_answers = rs\<rparr>
            (entry_for env rq q \<lparr>lc_action = Forwarded, lc_source_id = None, lc_upstream = Some up,
              lc_ttl_remaining = None\<rparr>) h')
     | (Inr (Inl e), h') \<Rightarrow>
         (Inr ((answer_header env rq)\<lparr>hd_rcode := ServFail\<rparr>),
          answered \<lparr>rs_header = (answer_header env rq)\<lparr>hd_rcode := ServFail\<rparr>, rs_answers = []\<rparr>
            (entry_for env rq q \<lparr>lc_action = Forwarded, lc_source_id = None,
              lc_upstream = Some (''error: '' @ e), lc_ttl_remaining = None\<rparr>) h'))"
  using assms by (simp add: resolve_and_serve_def st_bind_def serve_eqs split: sum.split prod.split)

lemma handle_request_eq:
  assumes "rq_queries rq \<noteq> []" "en_send_ok env"
  shows "handle_request env rq h =
    (let q = query_of env rq; h1 = counted rq q h; d = decide env q h in
     case d of
       Poisoned \<Rightarrow> (Inl LockPoisoned, h1)
     | ToUpstream \<Rightarrow> resolve_and_serve env rq q h1
     | _ \<Rightarrow> (Inr (header_for env rq q d), carried_out env rq q d h1))"
  by (simp add: handle_request_def st_bind_def handle_until_resolve_eq [OF assms] Let_def st_return_def
      split: decision.split)

lemma resolve_and_serve_total:
  assumes "resolver_ready (dh_resolver h)" "en_send_ok env"
    and "\<forall>rs. fits_clock (dh_config h) (en_insert env) rs"
  shows "\<exists>info. fst (resolve_and_serve env rq q h) = Inr info"
  by (cases rule: upstreams.lookup_cases [OF assms(1), of "en_lookup env" "qc_name q" "qc_qtype q" "dh_stats h"])
    (simp_all add: resolve_and_serve_eq [OF assms(2)] resolve_and_cache_eq assms(3) Let_def)

lemma carried_out_fields [simp]:
  "dh_config (carried_out env rq q d h) = dh_config h"
  "dh_app_state (carried_out env rq q d h) = dh_app_state h"
  "dh_blocklist (carried_out env rq q d h) = dh_blocklist h"
  "dh_resolver (carried_out env rq q d h) = dh_resolver h"
  "dh_cache (carried_out env rq q d h) = dh_cache h"
  "dh_local_records (carried_out env rq q d h) = dh_local_records h"
  "dh_sent (carried_out env rq q d h) =
     dh_sent h @ [\<lparr>rs_header = header_for env rq q d, rs_answers = answers_for env q d\<rparr>]"
  "dh_spawned (carried_out env rq q d h) = dh_spawned h @ spawned_for q d"
  "dh_stats (carried_out env rq q d h) = stats_for rq q d (dh_stats h)"
  by (simp_all add: carried_out_def answered_def effects_def)

lemma counted_fields [simp]:
  "dh_config (counted rq q h) = dh_config h"
  "dh_logger (counted rq q h) = dh_logger h"
  "dh_app_state (counted rq q h) = dh_app_state h"
  "dh_blocklist (counted rq q h) = dh_blocklist h"
  "dh_resolver (counted rq q h) = dh_resolver h"
  "dh_cache (counted rq q h) = dh_cache h"
  "dh_local_records (counted rq q h) = dh_local_records h"
  "dh_sent (counted rq q h) = dh_sent h"
  "dh_spawned (counted rq q h) = dh_spawned h"
  by (simp_all add: counted_def)

lemma answered_fields [simp]:
  "dh_config (answered resp e h) = dh_config h"
  "dh_app_state (answered resp e h) = dh_app_state h"
  "dh_blocklist (answered resp e h) = dh_blocklist h"
  "dh_resolver (answered resp e h) = dh_resolver h"
  "dh_cache (answered resp e h) = dh_cache h"
  "dh_local_records (answered resp e h) = dh_local_records h"
  "dh_sent (answered resp e h) = dh_sent h @ [resp]"
  "dh_spawned (answered resp e h) = dh_spawned h"
  "dh_stats (answered resp e h) = dh_stats h"
  by (simp_all add: answered_def)

text \<open>Past \<open>get_query_info\<close>, the questions of the request are not looked at.\<close>

lemma questions_ignored [simp]:
  "answer_header env (rq\<lparr>rq_queries := x\<rparr>) = answer_header env rq"
  "log_query env (rq\<lparr>rq_queries := x\<rparr>) = log_query env rq"
proof -
  have "log_query env (rq\<lparr>rq_queries := x\<rparr>) q ctx = log_query env rq q ctx" for q ctx
    unfolding log_query_def by (simp cong: if_cong)
  then show "log_query env (rq\<lparr>rq_queries := x\<rparr>) = log_query env rq" by (intro ext) metis
qed (simp add: answer_header_def)

lemma questions_ignored_serving [simp]:
  "serve_records env (rq\<lparr>rq_queries := x\<rparr>) rs q ctx = serve_records env rq rs q ctx"
  "serve_error env (rq\<lparr>rq_queries := x\<rparr>) code q ctx = serve_error env rq code q ctx"
  by (simp_all add: serve_records_def serve_error_def)

lemma questions_ignored_steps [simp]:
  "serve_blocked env (rq\<lparr>rq_queries := x\<rparr>) q i = serve_blocked env rq q i"
  "handle_local_records env (rq\<lparr>rq_queries := x\<rparr>) q = handle_local_records env rq q"
  "handle_cached_response env (rq\<lparr>rq_queries := x\<rparr>) q = handle_cached_response env rq q"
  "resolve_and_serve env (rq\<lparr>rq_queries := x\<rparr>) q = resolve_and_serve env rq q"
  by (simp_all add: serve_blocked_def handle_local_records_def handle_cached_response_def
      resolve_and_serve_def Let_def cong: if_cong option.case_cong sum.case_cong)

lemma questions_ignored_blocked [simp]:
  "handle_blocked_request env (rq\<lparr>rq_queries := x\<rparr>) q = handle_blocked_request env rq q"
  by (simp add: handle_blocked_request_def cong: if_cong option.case_cong)

section \<open>A small instance, for the examples\<close>

definition sample_upstream :: upstream where
  "sample_upstream = \<lparr>up_url = ''udp://1.1.1.1'', up_resolver = \<lparr>ur_address = (V4 1, 53),
     ur_protocol = Udp, ur_tls_dns_name = None, ur_cache_size = 0, ur_timeout_ms = 200\<rparr>\<rparr>"

definition sample_handler :: dns_handler where
  "sample_handler = dns_handler_new Some config_default (stats_new 300 [] [] 0) []
     (hashed_matcher_new [''ads'' \<mapsto> 1] []) (SequentialResolver [sample_upstream]) app_state_new"

definition sample_env :: "instant \<Rightarrow> string + dns_record list \<Rightarrow> handler_env" where
  "sample_env t reply =
     \<lparr>en_start = t, en_pause_check = t, en_cache_check = t, en_insert = t, en_logged = t,
      en_lookup = \<lparr>ev_lookup = (\<lambda>_ _ _. reply), ev_start = t, ev_done = (\<lambda>_. t), ev_order = [0]\<rparr>,
      en_send_ok = True, en_parse_name = Some, en_default_name = [],
      en_response_header = (\<lambda>hd. hd\<lparr>hd_rcode := NoError\<rparr>), en_cached = map_of\<rparr>"

definition sample_request :: "string \<Rightarrow> rtype \<Rightarrow> request" where
  "sample_request name qt = \<lparr>rq_header = \<lparr>hd_id = 7, hd_authoritative = False, hd_rcode = NoError\<rparr>,
     rq_queries = [(name, qt)], rq_src = V4 1\<rparr>"

lemma sample_handler_fields [simp]:
  "dh_config sample_handler = config_default" "dh_app_state sample_handler = app_state_new"
  "dh_blocklist sample_handler = hashed_matcher_new [''ads'' \<mapsto> 1] []"
  "dh_resolver sample_handler = SequentialResolver [sample_upstream]"
  "dh_cache sample_handler = []" "dh_sent sample_handler = []" "dh_spawned sample_handler = []"
  "dh_local_records sample_handler = Map.empty" "local_answer sample_handler n t = None"
  by (simp_all add: sample_handler_def dns_handler_new_def config_default_def local_answer_def)

lemma sample_env_fields [simp]:
  "en_start (sample_env t reply) = t" "en_pause_check (sample_env t reply) = t"
  "en_cache_check (sample_env t reply) = t" "en_insert (sample_env t reply) = t"
  "en_parse_name (sample_env t reply) = Some"
  "en_send_ok (sample_env t reply)" "en_cached (sample_env t reply) = map_of"
  "ev_lookup (en_lookup (sample_env t reply)) = (\<lambda>_ _ _. reply)"
  "cache_contract (sample_env t reply)" "header_contract (sample_env t reply)"
  by (simp_all add: sample_env_def cache_contract_def header_contract_def)

lemma sample_request_fields [simp]:
  "rq_queries (sample_request n t) = [(n, t)]"
  "rq_header (sample_request n t) = \<lparr>hd_id = 7, hd_authoritative = False, hd_rcode = NoError\<rparr>"
  by (simp_all add: sample_request_def)

lemma sample_config [simp]:
  "cf_disable_ipv6 config_default = False" "cc_min_ttl (cf_cache config_default) = 300"
  "cc_grace_period_sec (cf_cache config_default) = 10"
  by (simp_all add: config_default_def default_disable_ipv6_def cache_config_default_def
      default_min_ttl_def default_grace_period_def)

lemma sample_resolver:
  "resolver_ready (SequentialResolver [sample_upstream])"
  "completes_all (SequentialResolver [sample_upstream]) (en_lookup (sample_env t reply))"
  by (simp_all add: resolver_ready_def completes_all_def sample_env_def)

lemma sample_resolves:
  "resolve (SequentialResolver [sample_upstream]) (en_lookup (sample_env t (Inr rs))) n qt st =
     (Inr (Inr (rs, up_url sample_upstream)), SequentialResolver [sample_upstream],
      record_upstream_latency 0 0 st)"
  by (simp add: resolve_eq sample_resolver upstream_fails_def reply_of_def latency_of_def
      duration_as_millis_def) (simp add: sample_env_def)

lemma sample_fits: "t < 2 ^ 40 * ns_per_sec \<Longrightarrow> fits_clock config_default t rs"
proof -
  assume t: "t < 2 ^ 40 * ns_per_sec"
  have "unat w * ns_per_sec < 2 ^ 32 * ns_per_sec" for w :: u32
    using unsigned_less [of w] by (simp add: ns_per_sec_def)
  from this [of "lifetime config_default rs"] t show ?thesis
    by (simp add: fits_clock_def cache_entry_def Let_def instant_limit_def ns_per_sec_def)
qed

lemma sample_name: "normal_name ''ADS'' = ''ads''" "normal_name ''ads'' = ''ads''" "normal_name ''x'' = ''x''"
  by (simp_all add: normal_name_def ends_with_def make_ascii_lowercase_def ascii_lower_def char_of_def bit_Suc_0_iff)

lemma sample_blocks: "check (hashed_matcher_new [''ads'' \<mapsto> 1] []) ''ads'' = Some 1"
  "check (hashed_matcher_new [''ads'' \<mapsto> 1] []) ''x'' = None"
  by (simp_all add: check_def suffix_match_first_listed ancestors_def)

lemma blocked_response:
  assumes "rq_queries rq = (name, qt) # qs" "en_send_ok env" "header_contract env"
    and "is_blocking_active (en_pause_check env) (dh_app_state h) = Inr True"
    and "check (dh_blocklist h) (normal_name name) = Some i"
    and "local_answer h (normal_name name) qt = None"
    and "\<not> (cf_disable_ipv6 (dh_config h) \<and> qt = RT_AAAA)"
  shows "let h' = snd (handle_request env rq h) in
    (\<exists>resp. dh_sent h' = dh_sent h @ [resp] \<and> hd_id (rs_header resp) = hd_id (rq_header rq)
       \<and> (hd_rcode (rs_header resp), map rec_data (rs_answers resp)) =
          (case qt of RT_A \<Rightarrow> (NoError, [RD_A 0]) | RT_AAAA \<Rightarrow> (NoError, [RD_AAAA 0])
           | RT_Other _ \<Rightarrow> (NXDomain, [])))
    \<and> dh_resolver h' = dh_resolver h \<and> dh_cache h' = dh_cache h \<and> dh_spawned h' = dh_spawned h
    \<and> st_blocked_queries (dh_stats h') = st_blocked_queries (dh_stats h) + 1"
proof -
  let ?q = "query_of env rq"
  have q: "qc_name ?q = normal_name name" "qc_qtype ?q = qt"
    by (simp_all add: query_of_def assms(1))
  have d: "decide env ?q h = BlockedBy i"
    using assms(4-7) by (auto simp: decide_def q)
  have r: "handle_request env rq h =
      (Inr (header_for env rq ?q (BlockedBy i)), carried_out env rq ?q (BlockedBy i) (counted rq ?q h))"
    using handle_request_eq [of rq env h] assms(1,2) by (simp add: d Let_def)
  have hd: "hd_id (answer_header env rq) = hd_id (rq_header rq)" "hd_rcode (answer_header env rq) = NoError"
    using assms(3) by (simp_all add: header_contract_def answer_header_def)
  have st: "st_blocked_queries (stats_for rq ?q (BlockedBy i) (dh_stats (counted rq ?q h))) =
      st_blocked_queries (dh_stats h) + 1"
    by (simp add: counted_def stats_defs Let_def)
  show ?thesis
    unfolding r snd_conv Let_def carried_out_fields counted_fields
    using hd st
    by (cases qt) (simp_all add: header_for_def blocked_record_def q Let_def)
qed

section \<open>Properties\<close>

text \<open>
  C1. The handler carries out its specification: a query decided at once (filtered, local, blocked
  or cached) is answered exactly once with that decision's records and header, logged with its
  action, counted once, and leaves every other part of the state alone.
\<close>

theorem handler_refines_decision:
  assumes "rq_queries rq \<noteq> []" "en_send_ok env" "immediate (decide env (query_of env rq) h)"
  shows "let q = query_of env rq; d = decide env q h in
    handle_request env rq h = (Inr (header_for env rq q d), carried_out env rq q d (counted rq q h))
    \<and> dh_sent (snd (handle_request env rq h)) =
        dh_sent h @ [\<lparr>rs_header = header_for env rq q d, rs_answers = answers_for env q d\<rparr>]"
  using assms(3)
  by (simp add: handle_request_eq [OF assms(1,2)] Let_def immediate_def split: decision.split)

theorem handler_refines_decision_witness:
  "map rs_answers (dh_sent (snd (handle_request (sample_env 5 (Inr [])) (sample_request ''ADS'' RT_A) sample_handler)))
   = [[from_rdata ''ads'' 60 (RD_A 0)]]"
proof -
  let ?env = "sample_env 5 (Inr [])" and ?rq = "sample_request ''ADS'' RT_A"
  have q: "qc_name (query_of ?env ?rq) = ''ads''" "qc_qtype (query_of ?env ?rq) = RT_A"
    by (simp_all add: query_of_def sample_name)
  have d: "decide ?env (query_of ?env ?rq) sample_handler = BlockedBy 1"
    by (simp add: decide_def q sample_blocks)
  then have "rq_queries ?rq \<noteq> []" "en_send_ok ?env"
    "immediate (decide ?env (query_of ?env ?rq) sample_handler)"
    by (simp_all add: immediate_def)
  from handler_refines_decision [OF this] show ?thesis
    by (simp add: d Let_def blocked_record_def q)
qed

text \<open>
  C3. A listed name is never looked up while blocking is active: unless a local record answers it,
  the query gets the unspecified address (or NXDOMAIN for the other types) at once, whatever the
  cache holds; no upstream is asked, nothing is cached or refreshed, and the block is counted for
  its source.
\<close>

theorem blocked_never_forwarded:
  assumes "rq_queries rq = (name, qt) # qs" "en_send_ok env" "header_contract env"
    and "is_blocking_active (en_pause_check env) (dh_app_state h) = Inr True"
    and "check (dh_blocklist h) (normal_name name) = Some i"
    and "local_answer h (normal_name name) qt = None"
    and "\<not> (cf_disable_ipv6 (dh_config h) \<and> qt = RT_AAAA)"
  shows "let h' = snd (handle_request env rq h) in
    (\<exists>resp. dh_sent h' = dh_sent h @ [resp] \<and> hd_id (rs_header resp) = hd_id (rq_header rq)
       \<and> (hd_rcode (rs_header resp), map rec_data (rs_answers resp)) =
          (case qt of RT_A \<Rightarrow> (NoError, [RD_A 0]) | RT_AAAA \<Rightarrow> (NoError, [RD_AAAA 0])
           | RT_Other _ \<Rightarrow> (NXDomain, [])))
    \<and> dh_resolver h' = dh_resolver h \<and> dh_cache h' = dh_cache h \<and> dh_spawned h' = dh_spawned h
    \<and> st_blocked_queries (dh_stats h') = st_blocked_queries (dh_stats h) + 1"
  using assms by (rule blocked_response)

theorem blocked_never_forwarded_witness:
  "let h' = snd (handle_request (sample_env 5 (Inr [])) (sample_request ''ADS'' RT_A) sample_handler) in
   dh_cache h' = [] \<and> (\<exists>resp. dh_sent h' = [resp] \<and> map rec_data (rs_answers resp) = [RD_A 0])"
proof -
  let ?env = "sample_env 5 (Inr [])" and ?rq = "sample_request ''ADS'' RT_A"
  have "rq_queries ?rq = (''ADS'', RT_A) # []" "en_send_ok ?env" "header_contract ?env"
    "is_blocking_active (en_pause_check ?env) (dh_app_state sample_handler) = Inr True"
    "check (dh_blocklist sample_handler) (normal_name ''ADS'') = Some 1"
    "local_answer sample_handler (normal_name ''ADS'') RT_A = None"
    "\<not> (cf_disable_ipv6 (dh_config sample_handler) \<and> RT_A = RT_AAAA)"
    by (simp_all add: sample_name sample_blocks)
  from blocked_never_forwarded [OF this] show ?thesis
    unfolding Let_def by auto
qed

text \<open>
  C7. The life of a cached answer. Once an upstream's answer was cached, at \<open>t0\<close>, under a lifetime
  \<open>vu\<close> (the larger of its records' smallest lifetime and the configured minimum) and a grace
  period, a later query for the key, if the cache still holds it, is served the same records while
  now is before the end of the grace period; exactly the queries after the lifetime spawn one
  refresh of the key; and after the grace period the query is forwarded. This holds for empty
  answers too.
\<close>

theorem cached_answer_window:
  assumes "resolve_and_cache env0 (normal_name name) qt h0 = (Inr (Inr (rs, up)), h1)"
    and "dh_cache h = dh_cache h1" "dh_config h = dh_config h0"
    and "cache_contract env" "en_cached env (dh_cache h) (normal_name name, qt) \<noteq> None"
    and "rq_queries rq = (name, qt) # qs" "en_send_ok env"
    and "is_blocking_active (en_pause_check env) (dh_app_state h) = Inr active"
    and "active \<longrightarrow> check (dh_blocklist h) (normal_name name) = None"
    and "local_answer h (normal_name name) qt = None"
    and "\<not> (cf_disable_ipv6 (dh_config h) \<and> qt = RT_AAAA)"
  shows "let c = dh_config h; now = en_cache_check env; h' = snd (handle_request env rq h);
      vu = en_insert env0 + unat (lifetime c rs) * ns_per_sec;
      su = vu + unat (cc_grace_period_sec (cf_cache c)) * ns_per_sec
    in if now < su then
         dh_sent h' = dh_sent h @ [\<lparr>rs_header = answer_header env rq, rs_answers = rs\<rparr>]
         \<and> dh_resolver h' = dh_resolver h
         \<and> dh_spawned h' = dh_spawned h @ (if now < vu then [] else [(normal_name name, qt)])
       else decide env (query_of env rq) h = ToUpstream"
proof -
  let ?q = "query_of env rq" and ?c = "dh_config h" and ?now = "en_cache_check env"
  let ?vu = "en_insert env0 + unat (lifetime ?c rs) * ns_per_sec"
  let ?su = "?vu + unat (cc_grace_period_sec (cf_cache ?c)) * ns_per_sec"
  have q: "qc_name ?q = normal_name name" "qc_qtype ?q = qt"
    by (simp_all add: query_of_def assms(6))
  have "map_of (dh_cache h) (normal_name name, qt) = Some (rs, ?vu, ?su)"
    using assms(1-3) by (auto simp: resolve_and_cache_eq cache_entry_def Let_def
        split: prod.splits sum.splits if_splits)
  then have held: "en_cached env (dh_cache h) (normal_name name, qt) = Some (rs, ?vu, ?su)"
    using assms(4,5) unfolding cache_contract_def by (metis not_None_eq)
  have d: "decide env ?q h = (case check_cache env (normal_name name) qt h of
      Some (rs, stale, ttl) \<Rightarrow> FromCache rs stale ttl | None \<Rightarrow> ToUpstream)"
    using assms(8-11) by (auto simp: decide_def q)
  show ?thesis
  proof (cases "?now < ?su")
    case True
    obtain ttl where c: "check_cache env (normal_name name) qt h = Some (rs, \<not> ?now < ?vu, ttl)"
      using True held by (cases "?now < ?vu") (simp_all add: check_cache_def Let_def)
    have r: "snd (handle_request env rq h) =
        carried_out env rq ?q (FromCache rs (\<not> ?now < ?vu) ttl) (counted rq ?q h)"
      using handle_request_eq [of rq env h] assms(6,7) by (simp add: d c Let_def)
    show ?thesis
      using True unfolding Let_def r by (simp add: header_for_def q)
  next
    case False
    then have "check_cache env (normal_name name) qt h = None"
      using held by (simp add: check_cache_def Let_def)
    with False d show ?thesis by (simp add: Let_def)
  qed
qed

theorem cached_answer_window_witness:
  "let env0 = sample_env 0 (Inr [from_rdata ''x'' 30 (RD_A 7)]);
       h1 = snd (resolve_and_cache env0 ''x'' RT_A sample_handler);
       env = sample_env (305 * ns_per_sec) (Inr []);
       h' = snd (handle_request env (sample_request ''x'' RT_A) h1)
   in map rs_answers (dh_sent h') = [[from_rdata ''x'' 30 (RD_A 7)]] \<and> dh_spawned h' = [(''x'', RT_A)]"
proof -
  let ?rs = "[from_rdata ''x'' 30 (RD_A 7)]"
  let ?earlier = "sample_env 0 (Inr ?rs)"
  let ?cached = "snd (resolve_and_cache ?earlier ''x'' RT_A sample_handler)"
  let ?env = "sample_env (305 * ns_per_sec) (Inr [])" and ?rq = "sample_request ''x'' RT_A"
  have r: "resolve_and_cache ?earlier (normal_name ''x'') RT_A sample_handler =
      (Inr (Inr (?rs, up_url sample_upstream)), ?cached)"
    by (simp add: resolve_and_cache_eq sample_resolves sample_fits sample_name kept_records_def Let_def)
  have h1: "dh_config ?cached = config_default" "dh_app_state ?cached = app_state_new"
    "dh_blocklist ?cached = hashed_matcher_new [''ads'' \<mapsto> 1] []" "local_answer ?cached n t = None"
    "map_of (dh_cache ?cached) (''x'', RT_A) \<noteq> None" "dh_sent ?cached = []" "dh_spawned ?cached = []" for n t
    by (simp_all add: resolve_and_cache_eq sample_resolves sample_fits kept_records_def Let_def
        local_answer_def)
  have "dh_cache ?cached = dh_cache ?cached" "dh_config ?cached = dh_config sample_handler" "cache_contract ?env"
    "en_cached ?env (dh_cache ?cached) (normal_name ''x'', RT_A) \<noteq> None"
    "rq_queries ?rq = (''x'', RT_A) # []" "en_send_ok ?env"
    "is_blocking_active (en_pause_check ?env) (dh_app_state ?cached) = Inr True"
    "True \<longrightarrow> check (dh_blocklist ?cached) (normal_name ''x'') = None"
    "local_answer ?cached (normal_name ''x'') RT_A = None"
    "\<not> (cf_disable_ipv6 (dh_config ?cached) \<and> RT_A = RT_AAAA)"
    by (simp_all only: h1 sample_name sample_blocks sample_env_fields sample_request_fields
        sample_handler_fields is_blocking_active_new) simp_all
  note window = cached_answer_window [OF r this]
  have "lifetime config_default ?rs = 300"
    by (simp add: lifetime_def)
  then have vu: "unat (lifetime config_default ?rs) = 300" by simp
  from window show ?thesis
    unfolding Let_def h1 vu sample_env_fields sample_config sample_name by (simp add: ns_per_sec_def)
qed

text \<open>
  C8. A forwarded query is answered exactly once, and truthfully: while some upstream answers, the
  client gets the records of one of those (without the filtered ones), and they are cached; it gets
  SERVFAIL exactly when every upstream failed, and a failure is never cached.
\<close>

theorem forwarded_answered_once:
  assumes "resolver_ready (dh_resolver h)" "completes_all (dh_resolver h) (en_lookup env)"
    and "en_send_ok env" "header_contract env"
    and "\<forall>rs. fits_clock (dh_config h) (en_insert env) rs"
  shows "let h' = snd (resolve_and_serve env rq q h);
             n = length (upstream_urls (dh_resolver h));
             fails = upstream_fails (en_lookup env) (qc_name q) (qc_qtype q)
    in \<exists>resp. dh_sent h' = dh_sent h @ [resp] \<and>
      (if \<forall>i < n. fails i
       then hd_rcode (rs_header resp) = ServFail \<and> rs_answers resp = [] \<and> dh_cache h' = dh_cache h
       else hd_rcode (rs_header resp) = NoError \<and>
         (\<exists>i < n. \<not> fails i \<and> rs_answers resp =
            kept_records (dh_config h) (reply_of (en_lookup env) (qc_name q) (qc_qtype q) i))
         \<and> dh_cache h' = ((qc_name q, qc_qtype q),
             cache_entry (dh_config h) (en_insert env) (rs_answers resp)) # dh_cache h)"
proof (cases rule: upstreams.lookup_cases [OF assms(1), of "en_lookup env" "qc_name q" "qc_qtype q" "dh_stats h"])
  case (1 records url r' st')
  with upstreams.lookup_success [OF assms(1,2) 1] assms(3-5) show ?thesis
    by (auto simp: resolve_and_serve_eq resolve_and_cache_eq Let_def header_contract_def answer_header_def)
next
  case (2 e r' st')
  with upstreams.lookup_failure [OF assms(1,2) 2] assms(3-5) show ?thesis
    by (auto simp: resolve_and_serve_eq resolve_and_cache_eq Let_def)
qed

theorem forwarded_answered_once_witness:
  "\<exists>resp. dh_sent (snd (resolve_and_serve (sample_env 5 (Inl ''timed out'')) (sample_request ''x'' RT_A)
      \<lparr>qc_name = ''x'', qc_qtype = RT_A, qc_start = 5\<rparr> sample_handler)) = [resp]
    \<and> hd_rcode (rs_header resp) = ServFail"
proof -
  let ?env = "sample_env 5 (Inl ''timed out'')" and ?rq = "sample_request ''x'' RT_A"
  let ?q = "\<lparr>qc_name = ''x'', qc_qtype = RT_A, qc_start = 5\<rparr>"
  have "resolver_ready (dh_resolver sample_handler)"
    "completes_all (dh_resolver sample_handler) (en_lookup ?env)" "en_send_ok ?env" "header_contract ?env"
    "\<forall>rs. fits_clock (dh_config sample_handler) (en_insert ?env) rs"
    by (simp_all add: sample_resolver sample_fits ns_per_sec_def)
  moreover have "upstream_fails (en_lookup ?env) n t i" for n t i
    by (simp add: upstream_fails_def)
  ultimately show ?thesis
    using forwarded_answered_once [of sample_handler ?env ?rq ?q] by (auto simp: Let_def)
qed

text \<open>
  C30. Names are compared as DNS compares them: a request is handled the same, to the last effect,
  whatever the case of the ASCII letters of its name and whether it ends with the root's dot.
\<close>

theorem names_case_insensitive:
  assumes "make_ascii_lowercase m = make_ascii_lowercase n" "\<not> ends_with n (CHR ''.'')"
    and "rq_queries rq = (n, qt) # qs"
  shows "handle_request env (rq\<lparr>rq_queries := (m @ ''.'', qt) # qs\<rparr>) h = handle_request env rq h"
proof -
  let ?rq = "rq\<lparr>rq_queries := (m @ ''.'', qt) # qs\<rparr>"
  have nn: "normal_name (m @ ''.'') = normal_name n"
    using assms(1,2) by (auto simp: normal_name_def ends_with_def)
  have "get_query_info env ?rq = get_query_info env rq"
    by (simp add: get_query_info_def assms(3) nn)
  then show ?thesis
    by (simp add: handle_request_def handle_until_resolve_def cong: if_cong option.case_cong sum.case_cong)
qed


theorem names_case_insensitive_witness:
  "handle_request (sample_env 5 (Inr [])) ((sample_request ''ads'' RT_A)\<lparr>rq_queries := [(''ADS'' @ ''.'', RT_A)]\<rparr>) sample_handler
   = handle_request (sample_env 5 (Inr [])) (sample_request ''ads'' RT_A) sample_handler"
proof (rule names_case_insensitive)
  show "make_ascii_lowercase ''ADS'' = make_ascii_lowercase ''ads''"
    by (simp add: make_ascii_lowercase_def ascii_lower_def char_of_def bit_Suc_0_iff)
qed (simp_all add: ends_with_def)

text \<open>
  C38. One pause too long for the clock takes the service down: afterwards every query that no local
  record answers panics in the check whether blocking is active, and gets no response at all.
\<close>

theorem oversized_pause_stops_answers:
  assumes "\<not> lk_poisoned app" "instant_limit \<le> now + d"
    and "dh_app_state h = pause_run ops (snd (pause_blocking now d app))"
    and "rq_queries rq = (name, qt) # qs" "en_send_ok env"
    and "local_answer h (normal_name name) qt = None"
    and "\<not> (cf_disable_ipv6 (dh_config h) \<and> qt = RT_AAAA)"
  shows "fst (handle_request env rq h) = Inl LockPoisoned
    \<and> dh_sent (snd (handle_request env rq h)) = dh_sent h"
proof -
  let ?q = "query_of env rq"
  have q: "qc_name ?q = normal_name name" "qc_qtype ?q = qt"
    by (simp_all add: query_of_def assms(4))
  have "is_blocking_active t (dh_app_state h) = Inl LockPoisoned" for t
    using assms(1-3) by (simp add: pause_blocking_healthy pause_run_poisoned)
  then have d: "decide env ?q h = Poisoned"
    using assms(6,7) by (auto simp: decide_def q)
  show ?thesis
    using handle_request_eq [of rq env h] assms(4,5) by (simp add: d Let_def)
qed

theorem oversized_pause_stops_answers_witness:
  "let h = sample_handler\<lparr>dh_app_state := snd (pause_blocking 0 instant_limit app_state_new)\<rparr>
   in dh_sent (snd (handle_request (sample_env 5 (Inr [])) (sample_request ''x'' RT_A) h)) = []"
proof -
  let ?h = "sample_handler\<lparr>dh_app_state := snd (pause_blocking 0 instant_limit app_state_new)\<rparr>"
  let ?env = "sample_env 5 (Inr [])" and ?rq = "sample_request ''x'' RT_A"
  have "\<not> lk_poisoned app_state_new" "instant_limit \<le> 0 + instant_limit"
    "dh_app_state ?h = pause_run [] (snd (pause_blocking 0 instant_limit app_state_new))"
    "rq_queries ?rq = (''x'', RT_A) # []" "en_send_ok ?env"
    "local_answer ?h (normal_name ''x'') RT_A = None"
    "\<not> (cf_disable_ipv6 (dh_config ?h) \<and> RT_A = RT_AAAA)"
    by (simp_all add: app_state_new_def pause_run_def local_answer_def)
  from oversized_pause_stops_answers [OF this] show ?thesis
    unfolding Let_def by simp
qed

text \<open>
  A grace period too long for the clock silences every forwarded query: the upstream's answer
  is there, but computing its deadline panics before the response is sent and before it is cached.
\<close>

theorem oversized_grace_stops_answers:
  assumes "2 ^ 63 \<le> unat (cc_grace_period_sec (cf_cache (dh_config h)))"
    and "resolve (dh_resolver h) (en_lookup env) (qc_name q) (qc_qtype q) (dh_stats h) = (Inr (Inr (rs, up)), r, st)"
    and "en_send_ok env"
  shows "fst (resolve_and_serve env rq q h) = Inl InstantOverflow
    \<and> dh_sent (snd (resolve_and_serve env rq q h)) = dh_sent h
    \<and> dh_cache (snd (resolve_and_serve env rq q h)) = dh_cache h"
proof -
  have "instant_limit \<le> unat (cc_grace_period_sec (cf_cache (dh_config h))) * ns_per_sec"
    unfolding instant_limit_def using assms(1) by (rule mult_le_mono1)
  then have "\<not> fits_clock (dh_config h) (en_insert env) x" for x
    by (simp add: fits_clock_def cache_entry_def Let_def)
  with assms(2,3) show ?thesis
    by (simp add: resolve_and_serve_eq resolve_and_cache_eq Let_def)
qed

theorem oversized_grace_stops_answers_witness:
  "let c = config_default\<lparr>cf_cache := (cf_cache config_default)\<lparr>cc_grace_period_sec := 2 ^ 63\<rparr>\<rparr>;
       q = \<lparr>qc_name = ''x'', qc_qtype = RT_A, qc_start = 5\<rparr>
   in dh_sent (snd (resolve_and_serve (sample_env 5 (Inr [])) (sample_request ''x'' RT_A) q
        (sample_handler\<lparr>dh_config := c\<rparr>))) = []"
proof -
  let ?c = "config_default\<lparr>cf_cache := (cf_cache config_default)\<lparr>cc_grace_period_sec := 2 ^ 63\<rparr>\<rparr>"
  let ?h = "sample_handler\<lparr>dh_config := ?c\<rparr>" and ?q = "\<lparr>qc_name = ''x'', qc_qtype = RT_A, qc_start = 5\<rparr>"
  let ?env = "sample_env 5 (Inr [])"
  have a: "2 ^ 63 \<le> unat (cc_grace_period_sec (cf_cache (dh_config ?h)))"
    by simp
  have b: "resolve (dh_resolver ?h) (en_lookup ?env) (qc_name ?q) (qc_qtype ?q) (dh_stats ?h) =
      (Inr (Inr ([], up_url sample_upstream)), SequentialResolver [sample_upstream],
       record_upstream_latency 0 0 (dh_stats ?h))"
    by (simp add: sample_resolves)
  have "en_send_ok ?env" by simp
  from oversized_grace_stops_answers [OF a b this] show ?thesis
    unfolding Let_def by simp
qed

text \<open>
  Configured names are compared as they are written, but queries in lower case: a local record
  or an allowlist entry with a capital letter never applies to any query.
\<close>

theorem capital_entries_never_apply:
  assumes "is_upper c" "c \<in> set k"
  shows "check (hashed_matcher_new domains (k # allow)) (normal_name n) =
      check (hashed_matcher_new domains allow) (normal_name n)
    \<and> local_answer (h\<lparr>dh_local_records := (dh_local_records h)(k \<mapsto> rs)\<rparr>) (normal_name n) qt =
      local_answer h (normal_name n) qt"
proof -
  have "normal_name n \<noteq> k"
    using assms make_ascii_lowercase_no_upper unfolding normal_name_def by metis
  then show ?thesis
    by (simp add: check_def local_answer_def)
qed

theorem capital_entries_never_apply_witness:
  "\<forall>n. check (hashed_matcher_new [''ads'' \<mapsto> 1] [''ADS'']) (normal_name n) =
     check (hashed_matcher_new [''ads'' \<mapsto> 1] []) (normal_name n)"
proof
  fix n
  have "is_upper CHR ''A''" "CHR ''A'' \<in> set ''ADS''" by (simp_all add: is_upper_def)
  from capital_entries_never_apply [OF this] show
    "check (hashed_matcher_new [''ads'' \<mapsto> 1] [''ADS'']) (normal_name n) =
     check (hashed_matcher_new [''ads'' \<mapsto> 1] []) (normal_name n)" by blast
qed

end
