(* ===== verification/Ui_Build.thy ===== *)
theory Ui_Build
  imports Api_Model
begin

text \<open>
  \<open>build.rs\<close>: the build step that copies the user interface into the output directory, which the
  server then embeds and serves (\<open>static_handler\<close>). The minifier is the parameter \<open>minify\<close>; a
  directory is the list of its entries, the output directory a map from file names to contents.
\<close>

section \<open>The build step\<close>

text \<open>An entry with no content is one that cannot be read: the build panics on it.\<close>

record dir_entry =
  en_file_name :: string
  en_is_file :: bool
  en_content :: "string option"

text \<open>\<open>Path::extension\<close>: what follows the last dot, unless that dot starts the name.\<close>

definition file_extension :: "string \<Rightarrow> string option" where
  "file_extension name =
     (let tail = takeWhile (\<lambda>c. c \<noteq> CHR ''.'') (rev name)
      in if length tail + 1 < length name then Some (rev tail) else None)"

definition built_content :: "(string \<Rightarrow> string) \<Rightarrow> bool \<Rightarrow> string \<Rightarrow> string \<Rightarrow> string" where
  "built_content minify should_minify name source =
     (if should_minify \<and> file_extension name = Some ''html'' then minify source else source)"

fun build_entries :: "(string \<Rightarrow> string) \<Rightarrow> bool \<Rightarrow> dir_entry list \<Rightarrow> (string \<rightharpoonup> string)
    \<Rightarrow> (string \<rightharpoonup> string) outcome" where
  "build_entries minify should_minify [] dest = Inr dest"
| "build_entries minify should_minify (e # es) dest =
     (if en_is_file e then
        (case en_content e of
           None \<Rightarrow> Inl (UnwrapFailed ''read'')
         | Some source \<Rightarrow> build_entries minify should_minify es
             (dest(en_file_name e \<mapsto> built_content minify should_minify (en_file_name e) source)))
      else build_entries minify should_minify es dest)"

text \<open>
  The whole step: the output of an earlier build is removed, then the files of the source directory,
  when there is one, are written; \<open>release\<close> turns the minifier on.
\<close>

definition build_ui :: "(string \<Rightarrow> string) \<Rightarrow> string \<Rightarrow> dir_entry list option \<Rightarrow> (string \<rightharpoonup> string)
    \<Rightarrow> (string \<rightharpoonup> string) outcome" where
  "build_ui minify profile src_path dest_path =
     (let dest_path = Map.empty; should_minify = (profile = ''release'')
      in case src_path of
           Some entries \<Rightarrow> build_entries minify should_minify entries dest_path
         | None \<Rightarrow> Inr dest_path)"

section \<open>Properties\<close>

lemma build_entries_files:
  assumes "\<forall>e \<in> set es. en_is_file e \<longrightarrow> en_content e \<noteq> None"
  shows "build_entries minify m es dest = Inr (dest ++ map_of (rev
    (map (\<lambda>e. (en_file_name e, built_content minify m (en_file_name e) (the (en_content e))))
       (filter en_is_file es))))"
  using assms
proof (induction es arbitrary: dest)
  case (Cons e es)
  then show ?case by (cases "en_content e") auto
qed simp

lemma written_lookup:
  assumes "distinct (map f es)" "e \<in> set es"
  shows "map_of (rev (map (\<lambda>e. (f e, g e)) (filter P es))) (f e) = (if P e then Some (g e) else None)"
proof -
  let ?kv = "map (\<lambda>e. (f e, g e)) (filter P es)"
  have keys: "map fst ?kv = map f (filter P es)" by simp
  then have d: "distinct (map fst ?kv)" using assms(1) by (metis distinct_map_filter)
  moreover have "distinct (map fst (rev ?kv))" using d by (simp flip: rev_map)
  ultimately have "map_of (rev ?kv) = map_of ?kv" by (simp add: map_of_inject_set)
  moreover have "map_of ?kv (f e) = (if P e then Some (g e) else None)"
  proof (cases "P e")
    case True
    then have "(f e, g e) \<in> set ?kv" using assms(2) by simp
    with d True show ?thesis by simp
  next
    case False
    then have "f e \<notin> f ` set (filter P es)"
      using assms by (auto simp: distinct_map dest: inj_onD)
    with False show ?thesis by (simp add: map_of_eq_None_iff image_image)
  qed
  ultimately show ?thesis by simp
qed

lemma written_dom: "dom (map_of (rev (map (\<lambda>e. (f e, g e)) (filter P es)))) = f ` {e \<in> set es. P e}"
  by (simp add: dom_map_of_conv_image_fst image_image)

text \<open>
  What was built is what is served: every file of the interface is found under its name, minified in
  a release build when it is a page, the root path gives the start page, and nothing of an earlier
  build, nor a subdirectory, is found.
\<close>

theorem built_files_served:
  assumes "\<forall>e \<in> set es. en_is_file e \<longrightarrow> en_content e \<noteq> None"
    and "distinct (map en_file_name es)"
    and "\<forall>e \<in> set es. en_file_name e \<noteq> [] \<and> hd (en_file_name e) \<noteq> CHR ''/''"
  shows "\<exists>assets. build_ui minify profile (Some es) old = Inr assets
    \<and> (\<forall>e \<in> set es. static_handler assets mime_of (CHR ''/'' # en_file_name e) =
         (if en_is_file e then FoundFile (mime_of (en_file_name e))
            (built_content minify (profile = ''release'') (en_file_name e) (the (en_content e)))
          else NotFound ''404 Not Found''))
    \<and> static_handler assets mime_of ''/'' = static_handler assets mime_of ''/index.html''
    \<and> dom assets = en_file_name ` {e \<in> set es. en_is_file e}"
proof -
  let ?out = "\<lambda>e. (en_file_name e, built_content minify (profile = ''release'') (en_file_name e) (the (en_content e)))"
  let ?kv = "rev (map ?out (filter en_is_file es))"
  note found = written_lookup [OF assms(2)]
  have path: "trim_start_matches (CHR ''/'') (CHR ''/'' # en_file_name e) = en_file_name e"
    if "e \<in> set es" for e
    using assms(3) that by (cases "en_file_name e") (auto simp: trim_start_matches_def)
  have "build_ui minify profile (Some es) old = Inr (map_of ?kv)"
    by (simp add: build_ui_def Let_def build_entries_files [OF assms(1)])
  moreover have "dom (map_of ?kv) = en_file_name ` {e \<in> set es. en_is_file e}"
    by (rule written_dom)
  moreover have "static_handler (map_of ?kv) mime_of ''/'' = static_handler (map_of ?kv) mime_of ''/index.html''"
    by (simp add: static_handler_def trim_start_matches_def)
  moreover have "static_handler (map_of ?kv) mime_of (CHR ''/'' # en_file_name e) =
      (if en_is_file e then FoundFile (mime_of (en_file_name e)) (snd (?out e))
       else NotFound ''404 Not Found'')" if "e \<in> set es" for e
    using assms(3) that by (simp add: static_handler_def path found Let_def)
  ultimately show ?thesis by auto
qed

theorem built_files_served_witness:
  "\<exists>assets. build_ui rev ''release'' (Some [\<lparr>en_file_name = ''index.html'', en_is_file = True,
      en_content = Some ''ba''\<rparr>]) (Map.empty(''old.html'' \<mapsto> ''x'')) = Inr assets
    \<and> static_handler assets (\<lambda>_. ''text/html'') ''/'' = FoundFile ''text/html'' ''ab''
    \<and> static_handler assets (\<lambda>_. ''text/html'') ''/old.html'' = NotFound ''404 Not Found''"
proof -
  let ?e = "\<lparr>en_file_name = ''index.html'', en_is_file = True, en_content = Some ''ba''\<rparr>"
  have "\<forall>e \<in> set [?e]. en_is_file e \<longrightarrow> en_content e \<noteq> None" "distinct (map en_file_name [?e])"
    "\<forall>e \<in> set [?e]. en_file_name e \<noteq> [] \<and> hd (en_file_name e) \<noteq> CHR ''/''"
    by simp_all
  from built_files_served [OF this, of rev "''release''" "Map.empty(''old.html'' \<mapsto> ''x'')" "\<lambda>_. ''text/html''"]
  obtain assets where a: "build_ui rev ''release'' (Some [?e]) (Map.empty(''old.html'' \<mapsto> ''x'')) = Inr assets"
    and served: "static_handler assets (\<lambda>_. ''text/html'') ''/'' =
       FoundFile ''text/html'' (built_content rev True ''index.html'' ''ba'')"
    and d: "dom assets = en_file_name ` {e \<in> set [?e]. en_is_file e}"
    by auto
  have "built_content rev True ''index.html'' ''ba'' = ''ab''"
    by (simp add: built_content_def file_extension_def)
  with served have "static_handler assets (\<lambda>_. ''text/html'') ''/'' = FoundFile ''text/html'' ''ab''" by simp
  moreover have "''old.html'' \<notin> dom assets" unfolding d by auto
  then have "static_handler assets (\<lambda>_. ''text/html'') ''/old.html'' = NotFound ''404 Not Found''"
    by (simp add: static_handler_def trim_start_matches_def domIff)
  ultimately show ?thesis using a by blast
qed

end
