(* ===== verification/System_Model.thy ===== *)
theory System_Model
  imports Main_Model Handler_Properties Ui_Build
begin

text \<open>
  The running service: the tasks of \<open>src/main.rs\<close> interleaved as a step relation on one shared state,
  and the invariants of its reachable states.

  A request is two steps, what the handler does before it waits for an upstream and what it does
  after, with any steps of the other tasks in between: further requests, background refreshes, the
  updater, the API, the sinks' tasks and the database writer. An update is two steps too, the wake-up
  and, after the downloads, the swap. Each step is the whole of what its task does between two
  points where it waits.
\<close>

section \<open>The state\<close>

record system =
  sy_handler :: dns_handler
  sy_pending :: "(request \<times> query_context) list"
  sy_updater :: "updater option"
  sy_fetching :: bool
  sy_refresh :: "unit channel"
  sy_source :: source_handle
  sy_db_poisoned :: bool
  sy_api_alive :: bool
  sy_requests :: "request list"
  sy_panics :: "(request \<times> panic) list"

text \<open>The number of requests received.\<close>

abbreviation sy_received :: "system \<Rightarrow> nat" where
  "sy_received s \<equiv> length (sy_requests s)"

text \<open>
  The handles of the API resolved: the ring buffer is the one the logger's last sink owns; the
  table is the one the database writer writes, or, when there is none, as it was at start-up.
\<close>

definition ring_of :: "query_logger \<Rightarrow> memory_sink" where
  "ring_of l = (case [m. t \<leftarrow> l, MemorySink m \<leftarrow> [tk_sink t]] of m # _ \<Rightarrow> m | [] \<Rightarrow> memory_new 100)"

definition table_of :: "db \<Rightarrow> query_logger \<Rightarrow> db" where
  "table_of d l = (case [q. t \<leftarrow> l, SqliteSink q \<leftarrow> [tk_sink t]] of q # _ \<Rightarrow> sw_db (ss_writer q) | [] \<Rightarrow> d)"

definition api_view :: "config \<Rightarrow> system \<Rightarrow> api_state" where
  "api_view c s =
     \<lparr>as_data_source = (case sy_source s of
         InMemorySource \<Rightarrow> InMemoryStatsSource (dh_stats (sy_handler s)) (ring_of (dh_logger (sy_handler s)))
       | PersistentSource d \<Rightarrow> PersistentStatsSource (table_of d (dh_logger (sy_handler s)), sy_db_poisoned s)),
      as_engine = dh_app_state (sy_handler s), as_config = c, as_refresh_sender = sy_refresh s\<rparr>"

text \<open>What a request to the API may change: the pause, the refresh channel, the lock of the connection.\<close>

definition api_update :: "api_state \<Rightarrow> system \<Rightarrow> system" where
  "api_update a s =
     s\<lparr>sy_handler := (sy_handler s)\<lparr>dh_app_state := as_engine a\<rparr>, sy_refresh := as_refresh_sender a,
       sy_db_poisoned := (case as_data_source a of
           PersistentStatsSource (d, poisoned) \<Rightarrow> poisoned | _ \<Rightarrow> sy_db_poisoned s)\<rparr>"

text \<open>
  The tasks \<open>spawn_background_tasks\<close> starts, on the state the start-up returns: the updater, whose
  timer may panic, and the API, whose port may be taken.
\<close>

definition spawn_background_tasks :: "instant \<Rightarrow> (u16 \<Rightarrow> string + unit) \<Rightarrow> config \<Rightarrow> source_handle
    \<Rightarrow> dns_handler \<Rightarrow> system" where
  "spawn_background_tasks now bind c source h =
     (let (u, refresh) = (case start_updater now c of
            Inl p \<Rightarrow> (None, close_channel (channel_new 1))
          | Inr u \<Rightarrow> (Some u, channel_new 1));
          s = \<lparr>sy_handler = h, sy_pending = [], sy_updater = u, sy_fetching = False, sy_refresh = refresh,
            sy_source = source, sy_db_poisoned = False, sy_api_alive = False, sy_requests = [],
            sy_panics = []\<rparr>
      in case start_api_server bind (as_data_source (api_view c s)) (dh_app_state h) c refresh 8080 of
           Inl p \<Rightarrow> s
         | Inr _ \<Rightarrow> s\<lparr>sy_api_alive := True\<rparr>)"

section \<open>The steps\<close>

definition remove_at :: "nat \<Rightarrow> 'a list \<Rightarrow> 'a list" where
  "remove_at i xs = take i xs @ drop (Suc i) xs"

definition after_arrival :: "request \<Rightarrow> (header + query_context) outcome \<times> dns_handler \<Rightarrow> system \<Rightarrow> system" where
  "after_arrival rq r s =
     s\<lparr>sy_handler := snd r, sy_requests := sy_requests s @ [rq],
       sy_pending := (case fst r of Inr (Inr q) \<Rightarrow> sy_pending s @ [(rq, q)] | _ \<Rightarrow> sy_pending s),
       sy_panics := (case fst r of Inl p \<Rightarrow> sy_panics s @ [(rq, p)] | _ \<Rightarrow> sy_panics s)\<rparr>"

definition after_resolution :: "nat \<Rightarrow> header outcome \<times> dns_handler \<Rightarrow> system \<Rightarrow> system" where
  "after_resolution i r s =
     s\<lparr>sy_handler := snd r, sy_pending := remove_at i (sy_pending s),
       sy_panics := (case fst r of Inl p \<Rightarrow> sy_panics s @ [(fst (sy_pending s ! i), p)] | _ \<Rightarrow> sy_panics s)\<rparr>"

definition on_handler :: "(dns_handler \<Rightarrow> dns_handler) \<Rightarrow> system \<Rightarrow> system" where
  "on_handler f s = s\<lparr>sy_handler := f (sy_handler s)\<rparr>"

definition writer_turn :: "(stmt \<Rightarrow> bool) \<Rightarrow> (ip \<Rightarrow> string) \<Rightarrow> (rtype \<Rightarrow> string) \<Rightarrow> writer_clock
    \<Rightarrow> sink_task \<Rightarrow> sink_task" where
  "writer_turn fails show_ip show_rt clk t =
     (case tk_sink t of
        SqliteSink q \<Rightarrow> t\<lparr>tk_sink := SqliteSink (run_sqlite_writer fails show_ip show_rt clk q)\<rparr>
      | _ \<Rightarrow> t)"

definition env_contract :: "handler_env \<Rightarrow> bool" where
  "env_contract env \<longleftrightarrow> cache_contract env \<and> header_contract env"

inductive task_step :: "config \<Rightarrow> system \<Rightarrow> system \<Rightarrow> bool" for c where
  arrive: "env_contract env \<Longrightarrow>
     task_step c s (after_arrival rq (handle_until_resolve env rq (sy_handler s)) s)"
| complete: "env_contract env \<Longrightarrow> i < length (sy_pending s) \<Longrightarrow> sy_pending s ! i = (rq, q) \<Longrightarrow>
     completes_all (dh_resolver (sy_handler s)) (en_lookup env) \<Longrightarrow>
     task_step c s (after_resolution i (resolve_and_serve env rq q (sy_handler s)) s)"
| background: "env_contract env \<Longrightarrow>
     completes_all (dh_resolver (sy_handler s)) (en_lookup env) \<Longrightarrow>
     task_step c s (on_handler (background_refresh env) s)"
| wake: "sy_updater s = Some u \<Longrightarrow> \<not> sy_fetching s \<Longrightarrow>
     updater_wake now prefer_tick (sy_api_alive s) u (sy_refresh s) = Some (u', rx) \<Longrightarrow>
     task_step c s (s\<lparr>sy_updater := Some u', sy_refresh := rx, sy_fetching := True\<rparr>)"
| update: "sy_fetching s \<Longrightarrow> completion_order c order \<Longrightarrow>
     task_step c s (s\<lparr>sy_fetching := False, sy_handler := updater_swap uni get order c (sy_handler s)\<rparr>)"
| sink: "task_step c s (on_handler (\<lambda>h. h\<lparr>dh_logger := logger_step show_ip show_rt (Turn j) (dh_logger h)\<rparr>) s)"
| writer: "j < length (dh_logger (sy_handler s)) \<Longrightarrow>
     task_step c s (on_handler (\<lambda>h. h\<lparr>dh_logger :=
       (dh_logger h)[j := writer_turn fails show_ip show_rt clk (dh_logger h ! j)]\<rparr>) s)"

text \<open>A step of the service is one of a task, or a request to the API.\<close>

inductive sys_step :: "config \<Rightarrow> system \<Rightarrow> system \<Rightarrow> bool" for c where
  task: "task_step c s s' \<Longrightarrow> sys_step c s s'"
| api: "sy_api_alive s \<Longrightarrow> router_contract (ap_router ae) \<Longrightarrow>
     sys_step c s (api_update (snd (api_serve ae hq (api_view c s))) s)"

inductive sys_reachable :: "config \<Rightarrow> system \<Rightarrow> system \<Rightarrow> bool" for c s0 where
  start: "sys_reachable c s0 s0"
| step: "sys_reachable c s0 s \<Longrightarrow> sys_step c s s' \<Longrightarrow> sys_reachable c s0 s'"

section \<open>The invariant of the handler\<close>

definition no_aaaa :: "dns_record list \<Rightarrow> bool" where
  "no_aaaa rs \<longleftrightarrow> (\<forall>r \<in> set rs. record_type r \<noteq> RT_AAAA)"

definition ipv6_free :: "dns_handler \<Rightarrow> bool" where
  "ipv6_free h \<longleftrightarrow> (cf_disable_ipv6 (dh_config h) \<longrightarrow>
     (\<forall>entry \<in> set (dh_cache h). no_aaaa (fst (snd entry))) \<and> (\<forall>resp \<in> set (dh_sent h). no_aaaa (rs_answers resp)))"

definition locals_uniform :: "dns_handler \<Rightarrow> bool" where
  "locals_uniform h \<longleftrightarrow> (\<forall>n rs. dh_local_records h n = Some rs \<longrightarrow>
     (\<forall>r \<in> set rs. record_type r = record_type (hd rs)))"

definition logger_bounded :: "query_logger \<Rightarrow> bool" where
  "logger_bounded l \<longleftrightarrow>
     (\<forall>t \<in> set l. ch_capacity (tk_channel t) = 1000 \<and> length (ch_queue (tk_channel t)) \<le> 1000)"

definition handler_inv :: "config \<Rightarrow> dns_handler \<Rightarrow> bool" where
  "handler_inv c h \<longleftrightarrow> dh_config h = c \<and> stats_wf (dh_stats h) \<and> counters_agree (dh_stats h)
     \<and> resolver_ready (dh_resolver h)
     \<and> logger_bounded (dh_logger h) \<and> ipv6_free h \<and> locals_uniform h"

lemma offer_bounded: "logger_bounded l \<Longrightarrow> logger_bounded (log_entry e l)"
  by (auto simp: log_entry_map logger_bounded_def offer_def try_send_def)

lemma sink_turn_channel:
  "ch_capacity (tk_channel (sink_turn show_ip show_rt t)) = ch_capacity (tk_channel t)
   \<and> length (ch_queue (tk_channel (sink_turn show_ip show_rt t))) \<le> length (ch_queue (tk_channel t))"
  by (auto simp: sink_turn_def recv_def close_channel_def split: list.splits prod.splits sum.splits option.splits)

lemma sink_turn_bounded: "logger_bounded l \<Longrightarrow> logger_bounded (logger_step show_ip show_rt (Turn j) l)"
proof -
  assume l: "logger_bounded l"
  with sink_turn_channel [of show_ip show_rt] show ?thesis
    unfolding logger_bounded_def all_set_conv_all_nth
    by (auto simp: nth_list_update intro: le_trans)
qed

lemma writer_turn_channel [simp]: "tk_channel (writer_turn fails show_ip show_rt clk t) = tk_channel t"
  by (simp add: writer_turn_def split: sink.splits)

lemma writer_turn_bounded:
  "logger_bounded l \<Longrightarrow> j < length l \<Longrightarrow>
   logger_bounded (l[j := writer_turn fails show_ip show_rt clk (l ! j)])"
  unfolding logger_bounded_def all_set_conv_all_nth by (auto simp: nth_list_update)

lemma query_logger_new_bounded:
  assumes "\<And>s. s \<in> set extra \<Longrightarrow> sink_ready s"
  shows "logger_bounded (query_logger_new c names extra w now)"
proof -
  have "tk_channel t = channel_new 1000" if "t \<in> set (query_logger_new c names extra w now)" for t
    using query_logger_new_fresh [OF assms that] by simp
  then show ?thesis by (simp add: logger_bounded_def channel_new_def)
qed

lemma stats_for_keeps:
  "stats_wf st \<Longrightarrow> stats_wf (stats_for rq q d st)"
  "st_total_queries (stats_for rq q d st) = st_total_queries st"
  "counters_agree st \<Longrightarrow> counters_agree (stats_for rq q d st)"
  "hits_and_blocks (stats_for rq q d st) \<le> hits_and_blocks st + 1"
  subgoal by (cases d; simp add: stats_wf_intros)
  subgoal by (cases d; simp add: stats_defs Let_def)
  subgoal by (cases d; simp add: stats_defs Let_def counters_agree_def)
  subgoal using unat_inc_le by (cases d; simp add: stats_defs Let_def hits_and_blocks_def)
  done

lemma ipv6_free_record:
  "ipv6_free (answered resp e h) \<longleftrightarrow>
     ipv6_free h \<and> (cf_disable_ipv6 (dh_config h) \<longrightarrow> no_aaaa (rs_answers resp))"
  "ipv6_free (effects rq q d h) = ipv6_free h" "ipv6_free (counted rq q h) = ipv6_free h"
  by (auto simp: ipv6_free_def effects_def)

lemma locals_uniform_record:
  "locals_uniform (answered resp e h) = locals_uniform h"
  "locals_uniform (effects rq q d h) = locals_uniform h" "locals_uniform (counted rq q h) = locals_uniform h"
  by (simp_all add: locals_uniform_def effects_def)

lemma effects_fields [simp]:
  "dh_config (effects rq q d h) = dh_config h" "dh_logger (effects rq q d h) = dh_logger h"
  "dh_resolver (effects rq q d h) = dh_resolver h" "dh_sent (effects rq q d h) = dh_sent h"
  "dh_stats (effects rq q d h) = stats_for rq q d (dh_stats h)"
  by (simp_all add: effects_def)

lemma counted_stats [simp]:
  "stats_wf (dh_stats h) \<Longrightarrow> stats_wf (dh_stats (counted rq q h))"
  "st_total_queries (dh_stats (counted rq q h)) = st_total_queries (dh_stats h) + 1"
  "counters_agree (dh_stats h) \<Longrightarrow> counters_agree (dh_stats (counted rq q h))"
  "hits_and_blocks (dh_stats (counted rq q h)) = hits_and_blocks (dh_stats h)"
  by (simp_all add: counted_def stats_wf_intros)
    (simp_all add: stats_defs counters_agree_def hits_and_blocks_def)

lemma handler_inv_effects:
  "handler_inv c h \<Longrightarrow> handler_inv c (effects rq q d h)"
  by (simp add: handler_inv_def ipv6_free_record locals_uniform_record stats_for_keeps)

lemma handler_inv_counted: "handler_inv c h \<Longrightarrow> handler_inv c (counted rq q h)"
  by (simp add: handler_inv_def ipv6_free_record locals_uniform_record)

lemma handler_inv_answered:
  "handler_inv c h \<Longrightarrow> cf_disable_ipv6 c \<longrightarrow> no_aaaa (rs_answers resp) \<Longrightarrow>
   handler_inv c (answered resp e h)"
  unfolding handler_inv_def ipv6_free_record locals_uniform_record
  by (auto simp: answered_def offer_bounded)

lemma decide_local:
  "decide env q h = LocalAnswer rs \<Longrightarrow> local_answer h (qc_name q) (qc_qtype q) = Some rs"
  by (simp add: decide_def split: if_split_asm option.split_asm sum.split_asm prod.split_asm)

lemma decide_cached:
  "decide env q h = FromCache rs stale ttl \<Longrightarrow>
   check_cache env (qc_name q) (qc_qtype q) h = Some (rs, stale, ttl)"
  by (simp add: decide_def split: if_split_asm option.split_asm sum.split_asm prod.split_asm)

text \<open>No decision answers with an address record of the newer kind while it is disabled.\<close>

lemma no_aaaa_decided:
  assumes "handler_inv c h" "cf_disable_ipv6 c" "env_contract env"
  shows "no_aaaa (answers_for env q (decide env q h))"
proof -
  have c: "dh_config h = c" "ipv6_free h" "locals_uniform h"
    using assms(1) by (simp_all add: handler_inv_def)
  have cached: "no_aaaa rs" if "check_cache env n t h = Some (rs, stale, ttl)" for n t rs stale ttl
  proof -
    note found = that
    obtain v where v: "en_cached env (dh_cache h) (n, t) = Some v" "fst v = rs"
      using found by (cases "en_cached env (dh_cache h) (n, t)")
        (auto simp: check_cache_def Let_def split: if_splits)
    then have "map_of (dh_cache h) (n, t) = Some v"
      using assms(3) v(1) unfolding env_contract_def cache_contract_def by blast
    then have "((n, t), v) \<in> set (dh_cache h)" by (rule map_of_SomeD)
    then show ?thesis using c assms(2) v(2) by (fastforce simp: ipv6_free_def)
  qed
  have local: "no_aaaa rs" if "local_answer h n t = Some rs" "t \<noteq> RT_AAAA" for n t rs
  proof -
    have "dh_local_records h n = Some rs" "record_type (hd rs) = t"
      using that(1) by (simp_all add: local_answer_def split: option.split_asm if_split_asm)
    then show ?thesis
      using c(3) that(2) unfolding locals_uniform_def no_aaaa_def by metis
  qed
  show ?thesis
  proof (cases "qc_qtype q = RT_AAAA")
    case True
    then show ?thesis using c(1) assms(2) by (simp add: decide_def no_aaaa_def)
  next
    case False
    have "no_aaaa (answers_for env q (BlockedBy i))" for i
      using False by (cases "qc_qtype q") (simp_all add: blocked_record_def Let_def no_aaaa_def)
    then show ?thesis
      using False cached [OF decide_cached] local [OF decide_local]
      by (cases "decide env q h") (simp_all add: no_aaaa_def)
  qed
qed

lemma carried_out_answered:
  "carried_out env rq q d h =
     answered \<lparr>rs_header = header_for env rq q d, rs_answers = answers_for env q d\<rparr>
       (entry_for env rq q (log_for d)) (effects rq q d h)"
  by (simp add: carried_out_def)

lemma total_unchanged [simp]:
  "st_total_queries (inc_cache_hit st) = st_total_queries st"
  "st_total_queries (inc_domain_block d st) = st_total_queries st"
  "st_total_queries (inc_client_block i st) = st_total_queries st"
  "st_total_queries (inc_blocked_by_source j st) = st_total_queries st"
  by (simp_all add: stats_defs Let_def)

section \<open>The steps of a request keep it\<close>

lemma no_query_panics:
  "rq_queries rq = [] \<Longrightarrow> handle_until_resolve env rq h =
     (Inl NoQueryInRequest, h\<lparr>dh_stats := inc_client_query (rq_src rq) (inc_queries (dh_stats h))\<rparr>)"
  by (simp add: handle_until_resolve_def on_stats_def get_query_info_def st_defs)

text \<open>Requests and responses are matched by the identifier of their headers.\<close>

definition request_id :: "request \<Rightarrow> u16" where
  "request_id rq = hd_id (rq_header rq)"

definition response_id :: "response \<Rightarrow> u16" where
  "response_id resp = hd_id (rs_header resp)"

text \<open>The context a request is resolved in is that of its first query.\<close>

definition asked :: "request \<Rightarrow> query_context \<Rightarrow> bool" where
  "asked rq q \<longleftrightarrow> rq_queries rq \<noteq> []
     \<and> qc_name q = normal_name (fst (hd (rq_queries rq))) \<and> qc_qtype q = snd (hd (rq_queries rq))"

lemma answer_id: "env_contract env \<Longrightarrow> hd_id (answer_header env rq) = request_id rq"
  by (simp add: env_contract_def header_contract_def answer_header_def request_id_def)

lemma arrival:
  assumes "handler_inv c h" "env_contract env"
    and "handle_until_resolve env rq h = (r, h')"
  shows "handler_inv c h' \<and> st_total_queries (dh_stats h') = st_total_queries (dh_stats h) + 1
    \<and> hits_and_blocks (dh_stats h') \<le> hits_and_blocks (dh_stats h) + 1
    \<and> map response_id (dh_sent h') =
        map response_id (dh_sent h) @ (case r of Inr (Inl _) \<Rightarrow> [request_id rq] | _ \<Rightarrow> [])
    \<and> (\<forall>q. r = Inr (Inr q) \<longrightarrow> asked rq q)"
proof (cases "rq_queries rq = []")
  case True
  with assms(3) have "r = Inl NoQueryInRequest"
    "h' = h\<lparr>dh_stats := inc_client_query (rq_src rq) (inc_queries (dh_stats h))\<rparr>"
    by (simp_all add: no_query_panics)
  with assms(1) show ?thesis
    by (simp add: handler_inv_def stats_wf_intros ipv6_free_def locals_uniform_def)
      (simp add: stats_defs counters_agree_def hits_and_blocks_def)
next
  case False
  let ?q = "query_of env rq"
  let ?d = "decide env ?q h" and ?h = "counted rq ?q h"
  have inv: "handler_inv c ?h" "handler_inv c (effects rq ?q ?d ?h)"
    using assms(1) by (simp_all add: handler_inv_counted handler_inv_effects)
  have "cf_disable_ipv6 c \<longrightarrow> no_aaaa (answers_for env ?q ?d)"
    using no_aaaa_decided assms(1,2) by blast
  then have "handler_inv c (carried_out env rq ?q ?d ?h)"
    unfolding carried_out_answered by (intro handler_inv_answered inv) simp
  moreover have "asked rq ?q" using False by (simp add: asked_def query_of_def)
  moreover have "hd_id (header_for env rq ?q ?d) = request_id rq"
    using answer_id [OF assms(2)] by (simp add: header_for_def split: decision.split option.split)
  ultimately show ?thesis
    using inv assms(3) stats_for_keeps(4) [of rq ?q ?d "dh_stats ?h"]
    unfolding handle_until_resolve_cases [OF False] Let_def
    by (auto simp: stats_for_keeps response_id_def carried_out_answered answered_def
        split: decision.splits if_splits)
qed

lemma handler_inv_resolve:
  assumes "handler_inv c h" "completes_all (dh_resolver h) (en_lookup env)"
    and "resolve_and_cache env n t h = (r, h')"
  shows "handler_inv c h' \<and> st_total_queries (dh_stats h') = st_total_queries (dh_stats h)
    \<and> hits_and_blocks (dh_stats h') = hits_and_blocks (dh_stats h) \<and> dh_sent h' = dh_sent h
    \<and> (\<forall>rs up. r = Inr (Inr (rs, up)) \<longrightarrow> cf_disable_ipv6 c \<longrightarrow> no_aaaa rs)"
proof -
  obtain res rr st where l: "resolve (dh_resolver h) (en_lookup env) n t (dh_stats h) = (res, rr, st)"
    by (metis prod_cases3)
  have ready: "resolver_ready (dh_resolver h)" using assms(1) by (simp add: handler_inv_def)
  have keep: "resolver_ready rr" "stats_wf st" "st_total_queries st = st_total_queries (dh_stats h)"
    "counters_agree st" "hits_and_blocks st = hits_and_blocks (dh_stats h)"
    using upstreams.lookup_keeps [OF ready l] same_counters_agree [of "dh_stats h" st] assms(1)
    by (simp_all add: handler_inv_def same_counters_fields)
  have kept: "cf_disable_ipv6 c \<Longrightarrow> no_aaaa (kept_records c rs)" for rs
    by (simp add: kept_records_def no_aaaa_def)
  have inv: "handler_inv c (h\<lparr>dh_resolver := rr, dh_stats := st\<rparr>)"
    using assms(1) keep by (simp add: handler_inv_def ipv6_free_def locals_uniform_def)
  have stored: "handler_inv c (h\<lparr>dh_resolver := rr, dh_stats := st,
      dh_cache := (k, cache_entry c t0 (kept_records c rs)) # dh_cache h\<rparr>)" for k t0 rs
    using inv kept by (simp add: handler_inv_def ipv6_free_def locals_uniform_def cache_entry_def Let_def)
  have c: "dh_config h = c" using assms(1) by (simp add: handler_inv_def)
  show ?thesis
    using assms(3) inv stored keep(3,5) kept
    by (auto simp: resolve_and_cache_eq l c Let_def split: sum.splits prod.splits if_splits)
qed

lemma resolution:
  assumes "handler_inv c h" "completes_all (dh_resolver h) (en_lookup env)" "env_contract env"
    and "resolve_and_serve env rq q h = (r, h')"
  shows "handler_inv c h' \<and> st_total_queries (dh_stats h') = st_total_queries (dh_stats h)
    \<and> hits_and_blocks (dh_stats h') = hits_and_blocks (dh_stats h)
    \<and> map response_id (dh_sent h') =
        map response_id (dh_sent h) @ (case r of Inr _ \<Rightarrow> [request_id rq] | Inl _ \<Rightarrow> [])"
proof -
  obtain res h1 where l: "resolve_and_cache env (qc_name q) (qc_qtype q) h = (res, h1)" by fastforce
  note id = answer_id [OF assms(3), of rq]
  note keep = handler_inv_resolve [OF assms(1,2) l]
  show ?thesis
  proof (cases "\<exists>rs up. res = Inr (Inr (rs, up))")
    case True
    then obtain rs up where res: "res = Inr (Inr (rs, up))" by blast
    with keep assms(4) show ?thesis
      by (auto simp: resolve_and_serve_def st_bind_def l serve_eqs handler_inv_answered
          response_id_def id answered_fields split: if_splits)
  next
    case False
    with keep assms(4) show ?thesis
      by (auto simp: resolve_and_serve_def st_bind_def l serve_eqs no_aaaa_def response_id_def id answered_fields
          intro!: handler_inv_answered split: sum.splits if_splits)
  qed
qed

section \<open>The invariant of the service\<close>

definition system_inv :: "config \<Rightarrow> system \<Rightarrow> bool" where
  "system_inv c s \<longleftrightarrow> handler_inv c (sy_handler s)
     \<and> st_total_queries (dh_stats (sy_handler s)) = of_nat (sy_received s)
     \<and> hits_and_blocks (dh_stats (sy_handler s)) \<le> sy_received s
     \<and> mset (map response_id (dh_sent (sy_handler s))) + mset (map (request_id \<circ> fst) (sy_pending s))
         + mset (map (request_id \<circ> fst) (sy_panics s)) = mset (map request_id (sy_requests s))
     \<and> (\<forall>(rq, q) \<in> set (sy_pending s). rq \<in> set (sy_requests s) \<and> asked rq q)
     \<and> length (ch_queue (sy_refresh s)) \<le> 1 \<and> ch_capacity (sy_refresh s) = 1
     \<and> (sy_updater s \<noteq> None \<longrightarrow> ch_open (sy_refresh s))"

lemma mset_remove_at: "i < length xs \<Longrightarrow> mset xs = add_mset (xs ! i) (mset (remove_at i xs))"
  using arg_cong [OF id_take_nth_drop, of i xs mset] by (simp add: remove_at_def)

lemma set_remove_at: "set (remove_at i xs) \<subseteq> set xs"
  by (auto simp: remove_at_def dest: in_set_takeD in_set_dropD)

lemma length_remove_at: "i < length xs \<Longrightarrow> Suc (length (remove_at i xs)) = length xs"
  by (simp add: remove_at_def)

lemma handler_inv_frame [simp]:
  "handler_inv c (h\<lparr>dh_app_state := app\<rparr>) = handler_inv c h"
  "handler_inv c (h\<lparr>dh_blocklist := m\<rparr>) = handler_inv c h"
  "handler_inv c (h\<lparr>dh_spawned := k\<rparr>) = handler_inv c h"
  "logger_bounded l \<Longrightarrow> handler_inv c h \<Longrightarrow> handler_inv c (h\<lparr>dh_logger := l\<rparr>)"
  by (simp_all add: handler_inv_def ipv6_free_def locals_uniform_def)

lemma handler_inv_logger: "handler_inv c h \<Longrightarrow> logger_bounded (dh_logger h)"
  by (simp add: handler_inv_def)

lemma background:
  assumes "handler_inv c h" "completes_all (dh_resolver h) (en_lookup env)"
  shows "handler_inv c (background_refresh env h)
    \<and> st_total_queries (dh_stats (background_refresh env h)) = st_total_queries (dh_stats h)
    \<and> hits_and_blocks (dh_stats (background_refresh env h)) = hits_and_blocks (dh_stats h)
    \<and> dh_sent (background_refresh env h) = dh_sent h"
proof (cases "dh_spawned h")
  case Nil
  then show ?thesis using assms by (simp add: background_refresh_def)
next
  case (Cons k rest)
  obtain n t where k: "k = (n, t)" by fastforce
  let ?h = "h\<lparr>dh_spawned := rest\<rparr>"
  obtain r h' where l: "resolve_and_cache env n t ?h = (r, h')" by fastforce
  have "handler_inv c ?h" "completes_all (dh_resolver ?h) (en_lookup env)" using assms by simp_all
  from handler_inv_resolve [OF this l] show ?thesis
    by (simp add: background_refresh_def Cons k l)
qed

lemma refresh_channel:
  "length (ch_queue (snd (trigger_refresh ch))) \<le> max (ch_capacity ch) (length (ch_queue ch))
   \<and> ch_capacity (snd (trigger_refresh ch)) = ch_capacity ch
   \<and> ch_open (snd (trigger_refresh ch)) = ch_open ch"
  by (auto simp: trigger_refresh_def try_send_def)

lemma api_handle_sender:
  "as_refresh_sender (snd (api_handle ae body e a)) \<in>
     {as_refresh_sender a, snd (trigger_refresh (as_refresh_sender a))}"
  by (cases e) (auto split: prod.split option.split)

lemma api_serve_sender:
  "as_refresh_sender (snd (api_serve ae hq a)) \<in>
     {as_refresh_sender a, snd (trigger_refresh (as_refresh_sender a))}"
  using api_handle_sender [of ae "hq_body hq" _ a] by (simp add: api_serve_def split: routed.split)

lemma updater_wake_result:
  "updater_wake now p a u ch = Some (u', ch') \<Longrightarrow>
   ch_capacity ch' = ch_capacity ch \<and> ch_open ch' = ch_open ch
   \<and> length (ch_queue ch') \<le> length (ch_queue ch)"
  by (auto simp: updater_wake_def Let_def recv_def split: if_splits list.splits)

lemma task_step_inv:
  assumes "task_step c s s'" "system_inv c s"
  shows "system_inv c s'"
  using assms
proof (induction rule: task_step.induct)
  case (arrive env s rq)
  obtain r h' where l: "handle_until_resolve env rq (sy_handler s) = (r, h')" by fastforce
  have "handler_inv c (sy_handler s)" using arrive.prems by (simp add: system_inv_def)
  from arrival [OF this arrive.hyps l] arrive.prems show ?case
    by (auto simp: system_inv_def after_arrival_def l split: sum.splits simp flip: mset_map)
next
  case (complete env i s rq q)
  obtain r h' where l: "resolve_and_serve env rq q (sy_handler s) = (r, h')" by fastforce
  have "handler_inv c (sy_handler s)" using complete.prems by (simp add: system_inv_def)
  note inv = resolution [OF this complete.hyps(4,1) l]
  have ids: "mset (map (request_id \<circ> fst) (sy_pending s)) =
      add_mset (request_id rq) (mset (map (request_id \<circ> fst) (remove_at i (sy_pending s))))"
    using mset_remove_at [OF complete.hyps(2)] complete.hyps(3) by simp
  from inv complete.prems set_remove_at [of i "sy_pending s"] show ?case
    by (auto simp: system_inv_def after_resolution_def l ids complete.hyps(3) split: sum.splits
        simp flip: mset_map)
next
  case (background env s)
  then show ?case
    using System_Model.background [of c "sy_handler s" env] by (simp add: system_inv_def on_handler_def)
next
  case (wake s u now prefer_tick u' rx)
  from updater_wake_result [OF wake.hyps(3)] wake.hyps(1) wake.prems show ?case
    by (auto simp: system_inv_def)
next
  case (update s order uni get)
  then show ?case by (simp add: system_inv_def)
next
  case (sink s show_ip show_rt j)
  then show ?case
    using sink_turn_bounded [OF handler_inv_logger [of c "sy_handler s"]] by (simp add: system_inv_def on_handler_def del: logger_step.simps)
next
  case (writer j s fails show_ip show_rt clk)
  then show ?case
    using writer_turn_bounded [OF handler_inv_logger [of c "sy_handler s"]] by (simp add: system_inv_def on_handler_def)
qed

text \<open>What is counted is conserved, too.\<close>

lemma system_count:
  assumes "system_inv c s"
  shows "length (dh_sent (sy_handler s)) + length (sy_pending s) + length (sy_panics s) = sy_received s"
proof -
  have "size (mset (map response_id (dh_sent (sy_handler s))) + mset (map (request_id \<circ> fst) (sy_pending s))
      + mset (map (request_id \<circ> fst) (sy_panics s))) = size (mset (map request_id (sy_requests s)))"
    using assms unfolding system_inv_def by (simp only:)
  then show ?thesis by simp
qed

lemma sys_step_inv:
  assumes "sys_step c s s'" "system_inv c s"
  shows "system_inv c s'"
  using assms
proof (induction rule: sys_step.induct)
  case (task s s')
  then show ?case by (rule task_step_inv)
next
  case (api s ae hq)
  then show ?case
    using refresh_channel [of "sy_refresh s"] api_serve_sender [of ae hq "api_view c s"]
    by (auto simp: system_inv_def api_update_def api_view_def)
qed

inductive_cases sys_reachableE: "sys_reachable c s0 s"

lemma reachable_inv: "sys_reachable c s0 s \<Longrightarrow> system_inv c s0 \<Longrightarrow> system_inv c s"
  by (induction rule: sys_reachable.induct) (simp_all add: sys_step_inv)

text \<open>The state the start-up leaves satisfies it.\<close>

lemma ran_update: "Q b \<Longrightarrow> \<forall>x \<in> ran m. Q x \<Longrightarrow> \<forall>x \<in> ran (m(a \<mapsto> b)). Q x"
  by (auto simp: ran_def)

lemma insert_local_uniform:
  "\<forall>rs \<in> ran m. length rs = 1 \<Longrightarrow> \<forall>rs \<in> ran (insert_local parse ttl es m). length rs = 1"
proof (induction es arbitrary: m)
  case (Cons e es)
  obtain domain addr where e: "e = (domain, addr)" by fastforce
  have "\<forall>rs \<in> ran (m(domain \<mapsto> [r])). length rs = 1" for r
    using Cons.prems by (intro ran_update) simp_all
  then have "\<forall>rs \<in> ran (insert_local parse ttl es (m(domain \<mapsto> [r]))). length rs = 1" for r
    by (rule Cons.IH)
  moreover have "\<forall>rs \<in> ran (insert_local parse ttl es m). length rs = 1"
    using Cons.prems by (rule Cons.IH)
  ultimately show ?case
    by (cases "parse domain"; cases addr) (simp_all add: e Let_def)
qed simp

lemma locals_uniform_new: "locals_uniform (dns_handler_new parse c st logger m r app)"
proof -
  have "length rs = 1" if "insert_local parse (cc_min_ttl (cf_cache c)) (cf_local_records c) Map.empty n = Some rs" for n rs
  proof -
    have "rs \<in> ran (insert_local parse (cc_min_ttl (cf_cache c)) (cf_local_records c) Map.empty)"
      using that unfolding ran_def by blast
    then show ?thesis using insert_local_uniform [of Map.empty] by simp
  qed
  then have "\<forall>r \<in> set rs. record_type r = record_type (hd rs)"
    if "insert_local parse (cc_min_ttl (cf_cache c)) (cf_local_records c) Map.empty n = Some rs" for n rs
    using that by (fastforce simp: length_Suc_conv)
  then show ?thesis by (simp add: locals_uniform_def dns_handler_new_def)
qed

lemma init_pipeline_bounded:
  "init_pipeline b c names = (source, logger) \<Longrightarrow> logger_bounded logger"
  by (auto simp: init_pipeline_def init_query_logger_def create_memory_source_def Let_def memory_new_def
      intro!: query_logger_new_bounded split: option.splits sum.splits)

lemma boot_parts:
  assumes "boot b = Inr (c, source, h)"
  obtains names logger r where
    "init_pipeline b c names = (source, logger)" "create_resolver (be_net b) c = Inr r"
    "h = dns_handler_new (be_parse_name b) c (fst (init_app_stats c (be_now b))) logger
       (refresh (be_uni b) (be_get b) (be_order b) c) r app_state_new"
  using assms that
  by (auto simp: boot_def init_app_stats_def Let_def split: sum.splits prod.splits)

lemma boot_inv:
  assumes "boot b = Inr (c, source, h)"
  shows "system_inv c (spawn_background_tasks now bind c source h)"
proof -
  from boot_parts [OF assms] obtain names logger r where
    parts: "init_pipeline b c names = (source, logger)" "create_resolver (be_net b) c = Inr r"
    "h = dns_handler_new (be_parse_name b) c (fst (init_app_stats c (be_now b))) logger
       (refresh (be_uni b) (be_get b) (be_order b) c) r app_state_new" .
  have "stats_wf (dh_stats h)" "counters_agree (dh_stats h)" "hits_and_blocks (dh_stats h) = 0"
    "st_total_queries (dh_stats h) = 0" "dh_sent h = []"
    "dh_config h = c" "dh_logger h = logger" "dh_resolver h = r" "ipv6_free h"
    by (simp_all add: parts(3) dns_handler_new_def init_app_stats_def Let_def stats_new_wf
        counters_agree_new ipv6_free_def)
      (simp add: stats_new_def)
  moreover have "resolver_ready r"
    using create_resolver_spec [of "be_net b" c] parts(2) by simp
  moreover have "logger_bounded logger" using parts(1) by (rule init_pipeline_bounded)
  moreover have "locals_uniform h" unfolding parts(3) by (rule locals_uniform_new)
  ultimately show ?thesis
    by (simp add: system_inv_def handler_inv_def spawn_background_tasks_def Let_def close_channel_def
        channel_new_def split: sum.splits)
qed

lemma boot_fields:
  assumes "boot b = Inr (c, source, h)"
  shows "dh_config h = c" "dh_app_state h = app_state_new" "dh_sent h = []" "dh_spawned h = []"
    "dh_blocklist h = refresh (be_uni b) (be_get b) (be_order b) c" "dh_cache h = []"
    "dh_local_records h =
       insert_local (be_parse_name b) (cc_min_ttl (cf_cache c)) (cf_local_records c) Map.empty"
  by (rule boot_parts [OF assms]; simp add: dns_handler_new_def)+

lemma spawned_handler [simp]: "sy_handler (spawn_background_tasks now bind c source h) = h"
  "sy_pending (spawn_background_tasks now bind c source h) = []"
  "sy_requests (spawn_background_tasks now bind c source h) = []"
  "sy_source (spawn_background_tasks now bind c source h) = source"
  by (simp_all add: spawn_background_tasks_def Let_def split: sum.split)

lemma sys_reachable_trans:
  "sys_reachable c b s \<Longrightarrow> sys_reachable c a b \<Longrightarrow> sys_reachable c a s"
  by (induction rule: sys_reachable.induct) (auto intro: sys_reachable.step)

text \<open>A resolution keeps the upstreams, so replies that are complete for one are for the next.\<close>

lemma resolve_and_serve_upstreams:
  assumes "handler_inv c h"
  shows "completes_all (dh_resolver (snd (resolve_and_serve env rq q h))) =
    completes_all (dh_resolver h)"
proof -
  obtain res rr st where l: "resolve (dh_resolver h) (en_lookup env) (qc_name q) (qc_qtype q) (dh_stats h) = (res, rr, st)"
    by (metis prod_cases3)
  have "resolver_ready (dh_resolver h)" using assms by (simp add: handler_inv_def)
  from upstreams.lookup_keeps [OF this l]
  have "length (upstreams_of rr) = length (upstreams_of (dh_resolver h))"
    by (metis length_map upstream_urls_def)
  then show ?thesis
    by (auto simp: completes_all_def fun_eq_iff resolve_and_serve_def st_bind_def resolve_and_cache_eq l
        serve_eqs answered_def Let_def split: sum.split prod.split)
qed

text \<open>Any pending query can be resolved, whatever the upstreams reply.\<close>

lemma complete_pending:
  assumes "system_inv c s" "i < length (sy_pending s)" "sy_pending s ! i = (rq, q)"
    and "env_contract env" "completes_all (dh_resolver (sy_handler s)) (en_lookup env)"
    and "en_send_ok env" "\<forall>rs. fits_clock c (en_insert env) rs"
  obtains s' where "sys_step c s s'" "sy_pending s' = remove_at i (sy_pending s)"
    "length (dh_sent (sy_handler s')) = length (dh_sent (sy_handler s)) + 1"
    "sy_panics s' = sy_panics s"
    "completes_all (dh_resolver (sy_handler s')) = completes_all (dh_resolver (sy_handler s))"
proof -
  have inv: "handler_inv c (sy_handler s)" using assms(1) by (simp add: system_inv_def)
  obtain r h' where r: "resolve_and_serve env rq q (sy_handler s) = (r, h')" by fastforce
  have "\<exists>info. r = Inr info"
    using resolve_and_serve_total [of "sy_handler s" env rq q] inv assms(6,7) r
    by (simp add: handler_inv_def)
  then obtain info where info: "r = Inr info" by blast
  have sent: "map response_id (dh_sent h') =
      map response_id (dh_sent (sy_handler s)) @ (case r of Inr _ \<Rightarrow> [request_id rq] | Inl _ \<Rightarrow> [])"
    using resolution [OF inv assms(5,4) r] by blast
  have "length (dh_sent h') = Suc (length (dh_sent (sy_handler s)))"
    using arg_cong [of _ _ length, OF sent] info by simp
  then show ?thesis
    using info resolve_and_serve_upstreams [OF inv, of env rq q] r
    by (intro that [of "after_resolution i (r, h') s"])
      (use sys_step.task [OF task_step.complete [OF assms(4,2,3,5)]] in \<open>simp_all add: after_resolution_def\<close>)
qed

section \<open>Who changes the pause\<close>

lemma resolve_and_cache_pause:
  "dh_app_state (snd (resolve_and_cache env n t h)) = dh_app_state h"
  by (auto simp: resolve_and_cache_eq Let_def split: sum.split prod.split)

lemma resolve_and_serve_pause:
  "dh_app_state (snd (resolve_and_serve env rq q h)) = dh_app_state h"
  using resolve_and_cache_pause [of env "qc_name q" "qc_qtype q" h]
  by (auto simp: resolve_and_serve_def st_bind_def serve_eqs answered_def split: sum.split prod.split)

lemma handle_until_resolve_pause:
  "dh_app_state (snd (handle_until_resolve env rq h)) = dh_app_state h"
proof (cases "rq_queries rq = []")
  case True
  then show ?thesis by (simp add: no_query_panics)
next
  case False
  show ?thesis
    unfolding handle_until_resolve_cases [OF False] Let_def
    by (simp add: effects_def split: decision.split)
qed

text \<open>No task of the service touches the pause; only a request to the API can.\<close>

lemma task_step_pause:
  "task_step c s s' \<Longrightarrow> dh_app_state (sy_handler s') = dh_app_state (sy_handler s)"
proof (induction rule: task_step.induct)
  case (background env s)
  then show ?case
    by (auto simp: on_handler_def background_refresh_def resolve_and_cache_pause split: list.split)
qed (simp_all add: after_arrival_def after_resolution_def on_handler_def handle_until_resolve_pause
    resolve_and_serve_pause)

lemma tasks_pause:
  "(task_step c)\<^sup>*\<^sup>* s s' \<Longrightarrow> dh_app_state (sy_handler s') = dh_app_state (sy_handler s)"
  by (induction rule: rtranclp_induct) (simp_all add: task_step_pause)

section \<open>A small start-up, for the examples\<close>

definition free_port :: "u16 \<Rightarrow> string + unit" where
  "free_port port = Inr ()"

text \<open>
  A configuration in a file, every upstream a literal address, every list the same lines, and no
  database.
\<close>

definition no_database :: connection_env where
  "no_database = \<lparr>cn_open = (\<lambda>_. Inl ''no database''), cn_journal_mode = Inr (), cn_busy_timeout = Inr ()\<rparr>"

definition sample_boot :: "config \<Rightarrow> (string + string) list \<Rightarrow> boot_env" where
  "sample_boot c lines =
     \<lparr>be_args = [], be_exists = (\<lambda>_. True), be_read_file = (\<lambda>_. Inr []),
      be_parse_toml = (\<lambda>_. Inr (ser_config c)), be_client_conn = no_database, be_writer_conn = no_database,
      be_db_file = (\<lambda>_. db_empty), be_fails = (\<lambda>_. False),
      be_net = \<lparr>nt_parse_url = (\<lambda>_. Inr \<lparr>url_scheme = ''udp'', url_port = None, url_host_str = None\<rparr>),
        nt_parse_ip = (\<lambda>_. Some (V4 1)), nt_parse_socket_addr = (\<lambda>_. None),
        nt_lookup_ip = (\<lambda>_ _. Inl ''no network'')\<rparr>,
      be_uni = (\<lambda>s. s), be_get = (\<lambda>_. Inr lines), be_order = [0..<length (cf_blocklists c)],
      be_parse_name = Some, be_now = 0, be_wall = 0\<rparr>"

lemma sample_boot_fields [simp]:
  "be_uni (sample_boot c lines) = (\<lambda>s. s)" "be_get (sample_boot c lines) = (\<lambda>_. Inr lines)"
  "be_order (sample_boot c lines) = [0..<length (cf_blocklists c)]"
  by (simp_all add: sample_boot_def)

lemma sample_usable: "usable (be_net (sample_boot c lines)) c u"
  by (simp add: usable_def create_single_upstream_def sample_boot_def bootstrap_host_def Let_def)

lemma sample_boots: "\<exists>source h. boot (sample_boot c lines) = Inr (c, source, h)"
proof -
  have "\<exists>r. create_resolver (be_net (sample_boot c lines)) c = Inr r"
    using create_resolver_spec [of "be_net (sample_boot c lines)" c]
    by (simp add: sample_usable split: sum.splits if_splits)
  moreover have "load_config (sample_boot c lines) = Inr (c, ''config.toml'')"
    by (simp add: load_config_def sample_boot_def load_def de_ser_config opt_index_def Let_def)
  ultimately show ?thesis
    by (auto simp: boot_def split: prod.splits)
qed

end
