(* ===== verification/Service_Log.thy ===== *)
theory Service_Log
  imports System_Model
begin

text \<open>
  What becomes of the logged queries in the running service: a sink's task is followed from the
  start-up through all steps of the system. The interface is the locale \<open>task_observer\<close>: a relation
  between a task as it was started, the entries logged since, and the task as it is; the relation
  that the operations on one task keep holds in every reachable state. It is interpreted for the
  ring buffer and for the table, the two things the API shows.
\<close>

section \<open>Following a task\<close>

definition fresh_task :: "sink_task \<Rightarrow> bool" where
  "fresh_task t \<longleftrightarrow> task_ready t \<and> tk_channel t = channel_new 1000
     \<and> (\<forall>q. tk_sink t = SqliteSink q \<longrightarrow> ss_channel q = [])"

locale task_observer =
  fixes observed :: "sink_task \<Rightarrow> query_log_entry list \<Rightarrow> sink_task \<Rightarrow> bool"
  assumes started: "fresh_task t \<Longrightarrow> observed t [] t"
    and offered: "observed t0 log t \<Longrightarrow> observed t0 (log @ [e]) (offer e t)"
    and turned: "observed t0 log t \<Longrightarrow> observed t0 log (sink_turn show_ip show_rt t)"
    and written: "observed t0 log t \<Longrightarrow> observed t0 log (writer_turn fails show_ip show_rt clk t)"

text \<open>
  What a log entry tells of the response it was logged for: a blocked query got no real address, a
  local one a record of the type asked for, no query but a blocked one NXDOMAIN, and SERVFAIL only a
  forwarded one whose entry carries the error. \<open>Allowed\<close> is never logged.
\<close>

definition tells_outcome :: "query_log_entry \<Rightarrow> response \<Rightarrow> bool" where
  "tells_outcome e resp \<longleftrightarrow>
     (let code = hd_rcode (rs_header resp); records = rs_answers resp in
      case le_action e of
        Blocked \<Rightarrow> code \<in> {NoError, NXDomain} \<and> (\<forall>r \<in> set records. rec_data r \<in> {RD_A 0, RD_AAAA 0})
      | Local \<Rightarrow> code = NoError \<and> records \<noteq> [] \<and> record_type (hd records) = le_query_type e
      | Cached \<Rightarrow> code = NoError
      | Forwarded \<Rightarrow> code = NoError
          \<or> code = ServFail \<and> records = [] \<and> (\<exists>err. le_upstream e = Some (''error: '' @ err))
      | Allowed \<Rightarrow> False)"

text \<open>The entry and the response belong to a request: same client, name and type, same identifier.\<close>

definition tells :: "request \<Rightarrow> query_log_entry \<Rightarrow> response \<Rightarrow> bool" where
  "tells rq e resp \<longleftrightarrow> response_id resp = request_id rq \<and> le_client_ip e = rq_src rq
     \<and> rq_queries rq \<noteq> [] \<and> le_domain e = normal_name (fst (hd (rq_queries rq)))
     \<and> le_query_type e = snd (hd (rq_queries rq)) \<and> tells_outcome e resp"

definition recorded :: "request set \<Rightarrow> query_log_entry \<Rightarrow> response \<Rightarrow> bool" where
  "recorded R e resp \<longleftrightarrow> (\<exists>rq \<in> R. tells rq e resp)"

text \<open>
  One entry was logged for each response sent, of one of the requests \<open>R\<close>, unless logging is disabled.
\<close>

definition logged :: "(sink_task \<Rightarrow> query_log_entry list \<Rightarrow> sink_task \<Rightarrow> bool) \<Rightarrow> query_logger
    \<Rightarrow> request set \<Rightarrow> query_log_entry list \<Rightarrow> dns_handler \<Rightarrow> bool" where
  "logged observed l0 R log h \<longleftrightarrow>
     (if lg_enable (cf_logging (dh_config h)) then list_all2 (recorded R) log (dh_sent h) else log = [])
     \<and> list_all2 (\<lambda>t0. observed t0 log) l0 (dh_logger h)"

lemma entry_tells:
  assumes "asked rq q" "hd_id (rs_header resp) = request_id rq" "tells_outcome (entry_for env rq q ctx) resp"
  shows "tells rq (entry_for env rq q ctx) resp"
  using assms by (simp add: tells_def asked_def entry_for_def response_id_def)

lemma answer_code: "env_contract env \<Longrightarrow> hd_rcode (answer_header env rq) = NoError"
  by (simp add: env_contract_def header_contract_def answer_header_def)

lemma tells_decided:
  assumes "env_contract env" "immediate (decide env q h)" "asked rq q"
  shows "tells rq (entry_for env rq q (log_for (decide env q h)))
    \<lparr>rs_header = header_for env rq q (decide env q h), rs_answers = answers_for env q (decide env q h)\<rparr>"
proof (rule entry_tells [OF assms(3)])
  note header = answer_id [OF assms(1), of rq] answer_code [OF assms(1), of rq]
  show "hd_id (rs_header \<lparr>rs_header = header_for env rq q (decide env q h),
      rs_answers = answers_for env q (decide env q h)\<rparr>) = request_id rq"
    using header by (simp add: header_for_def split: decision.split option.split)
  have "rs \<noteq> [] \<and> record_type (hd rs) = qc_qtype q" if "decide env q h = LocalAnswer rs" for rs
    using decide_local [OF that] by (simp add: local_answer_def split: option.split_asm if_split_asm)
  then show "tells_outcome (entry_for env rq q (log_for (decide env q h)))
      \<lparr>rs_header = header_for env rq q (decide env q h), rs_answers = answers_for env q (decide env q h)\<rparr>"
    using assms(2) header
    by (cases "decide env q h"; cases "qc_qtype q")
      (simp_all add: tells_outcome_def entry_for_def header_for_def immediate_def blocked_record_def Let_def)
qed

lemma logged_frame:
  "dh_config h' = dh_config h \<Longrightarrow> dh_sent h' = dh_sent h \<Longrightarrow> dh_logger h' = dh_logger h \<Longrightarrow>
   logged P l0 R log h' = logged P l0 R log h"
  by (simp add: logged_def)

lemma recorded_mono: "R \<subseteq> R' \<Longrightarrow> recorded R e resp \<Longrightarrow> recorded R' e resp"
  unfolding recorded_def by blast

lemma logged_mono: "R \<subseteq> R' \<Longrightarrow> logged P l0 R log h \<Longrightarrow> logged P l0 R' log h"
  using recorded_mono [of R R'] by (auto simp: logged_def elim!: list_all2_mono)

lemma all2_update_right:
  assumes "list_all2 P xs ys" "\<And>x. P x (ys ! i) \<Longrightarrow> P x y"
  shows "list_all2 P xs (ys[i := y])"
proof (cases "i < length ys")
  case True
  with assms(1) have "P (xs ! i) y" by (intro assms(2)) (rule list_all2_nthD2)
  with list_all2_update_cong [OF assms(1), of "xs ! i" y i] show ?thesis by simp
next
  case False
  with assms(1) show ?thesis by (simp add: list_update_beyond)
qed

context task_observer
begin

lemma logged_answered:
  assumes "logged observed l0 R log h" "rq \<in> R" "tells rq e resp"
  shows "\<exists>log. logged observed l0 R log (answered resp e h)"
proof (cases "lg_enable (cf_logging (dh_config h))")
  case True
  have "recorded R e resp" using assms(2,3) unfolding recorded_def by blast
  with assms(1) True have "logged observed l0 R (log @ [e]) (answered resp e h)"
    by (auto simp: logged_def answered_def log_entry_map list_all2_map2 list_all2_appendI
        elim!: list_all2_mono offered)
  then show ?thesis by blast
next
  case False
  with assms have "logged observed l0 R log (answered resp e h)"
    by (auto simp: logged_def answered_def)
  then show ?thesis by blast
qed

lemma logged_resolve_and_cache:
  "logged observed l0 R log (snd (resolve_and_cache env n t h)) = logged observed l0 R log h"
  by (rule logged_frame; auto simp: resolve_and_cache_eq Let_def split: sum.split prod.split)

lemma logged_resolution:
  assumes "logged observed l0 R log h" "env_contract env" "rq \<in> R" "asked rq q"
  shows "\<exists>log. logged observed l0 R log (snd (resolve_and_serve env rq q h))"
proof -
  obtain res h1 where r: "resolve_and_cache env (qc_name q) (qc_qtype q) h = (res, h1)" by fastforce
  have h1: "logged observed l0 R log h1"
    using logged_resolve_and_cache [of l0 R log env "qc_name q" "qc_qtype q" h] assms r by simp
  show ?thesis
    using h1 answer_code [OF assms(2), of rq] answer_id [OF assms(2), of rq]
    by (auto simp: resolve_and_serve_def st_bind_def r serve_eqs tells_outcome_def Let_def
        intro!: logged_answered [OF h1 assms(3)] entry_tells [OF assms(4)] split: sum.split)
      (simp_all add: entry_for_def)
qed

lemma logged_arrival:
  assumes "logged observed l0 R log h" "env_contract env" "rq \<in> R"
  shows "\<exists>log. logged observed l0 R log (snd (handle_until_resolve env rq h))"
proof (cases "rq_queries rq = []")
  case True
  then show ?thesis using assms by (auto simp: no_query_panics logged_def)
next
  case False
  let ?q = "query_of env rq"
  let ?d = "decide env ?q h"
  have before: "logged observed l0 R log (counted rq ?q h)"
    "logged observed l0 R log (effects rq ?q ?d (counted rq ?q h))"
    using assms by (simp_all add: logged_def)
  have "asked rq ?q" using False by (simp add: asked_def query_of_def)
  then show ?thesis
    using before logged_answered [OF before(2) assms(3) tells_decided [OF assms(2), of ?q h rq]]
    unfolding handle_until_resolve_cases [OF False] Let_def carried_out_answered
    by (cases ?d) (auto simp: immediate_def)
qed

lemma logged_task_step:
  assumes "task_step c s s'" "system_inv c s" "logged observed l0 (set (sy_requests s)) log (sy_handler s)"
  shows "\<exists>log. logged observed l0 (set (sy_requests s')) log (sy_handler s')"
  using assms
proof (induction rule: task_step.induct)
  case (arrive env s rq)
  have "logged observed l0 (set (sy_requests s @ [rq])) log (sy_handler s)"
    using arrive.prems(2) by (rule logged_mono [rotated]) auto
  from logged_arrival [OF this arrive.hyps, of rq] show ?case by (simp add: after_arrival_def)
next
  case (complete env i s rq q)
  then have "rq \<in> set (sy_requests s)" "asked rq q"
    using nth_mem [OF complete.hyps(2)] by (auto simp: system_inv_def)
  from logged_resolution [OF complete.prems(2) complete.hyps(1) this] show ?case
    by (simp add: after_resolution_def)
next
  case (background env s)
  have "logged observed l0 (set (sy_requests s)) log ((sy_handler s)\<lparr>dh_spawned := ks\<rparr>)" for ks
    using background.prems(2) by (simp add: logged_def)
  then show ?case
    using background.prems logged_resolve_and_cache
    by (auto simp: on_handler_def background_refresh_def split: list.split)
next
  case (wake s u now prefer_tick u' rx)
  then show ?case by auto
next
  case (update s order uni get)
  then show ?case by (auto simp: logged_def)
next
  case (sink s show_ip show_rt j)
  then show ?case
    by (auto simp: logged_def on_handler_def intro!: all2_update_right turned)
next
  case (writer j s fails show_ip show_rt clk)
  then show ?case
    by (auto simp: logged_def on_handler_def intro!: all2_update_right written)
qed

lemma logged_sys_step:
  assumes "sys_step c s s'" "system_inv c s" "logged observed l0 (set (sy_requests s)) log (sy_handler s)"
  shows "\<exists>log. logged observed l0 (set (sy_requests s')) log (sy_handler s')"
  using assms
proof (induction rule: sys_step.induct)
  case (task s s')
  then show ?case by (rule logged_task_step)
next
  case (api s ae hq)
  then show ?case by (auto simp: api_update_def logged_def)
qed

lemma logged_reachable:
  assumes "sys_reachable c s0 s" "system_inv c s0" "dh_sent (sy_handler s0) = []"
    and "\<forall>t \<in> set (dh_logger (sy_handler s0)). fresh_task t"
  shows "\<exists>log. logged observed (dh_logger (sy_handler s0)) (set (sy_requests s)) log (sy_handler s)"
  using assms
proof (induction rule: sys_reachable.induct)
  case start
  then have "logged observed (dh_logger (sy_handler s0)) (set (sy_requests s0)) [] (sy_handler s0)"
    by (simp add: logged_def list_all2_same started)
  then show ?case by blast
next
  case (step s s')
  then show ?case using logged_sys_step reachable_inv by blast
qed

end

section \<open>The ring buffer\<close>

text \<open>
  The ring has been handed a sequence of entries that, with those waiting in its channel, is a
  subsequence of what was logged, and all of it as long as that fits the channel.
\<close>

definition ring_follows :: "memory_sink \<Rightarrow> query_log_entry list \<Rightarrow> sink_task \<Rightarrow> bool" where
  "ring_follows m log t \<longleftrightarrow>
     \<not> lk_poisoned (ms_buffer m) \<and> ch_open (tk_channel t) \<and> ch_capacity (tk_channel t) = 1000
     \<and> (\<exists>delivered. tk_sink t = MemorySink (fold (\<lambda>e m. snd (memory_log e m)) delivered m)
          \<and> subseq (delivered @ ch_queue (tk_channel t)) log
          \<and> (length log \<le> 1000 \<longrightarrow> delivered @ ch_queue (tk_channel t) = log))"

definition ring_observed :: "sink_task \<Rightarrow> query_log_entry list \<Rightarrow> sink_task \<Rightarrow> bool" where
  "ring_observed t0 log t \<longleftrightarrow>
     (case tk_sink t0 of MemorySink m \<Rightarrow> ring_follows m log t | _ \<Rightarrow> \<forall>m. tk_sink t \<noteq> MemorySink m)"

lemma ring_follows_offer:
  assumes "ring_follows m log t"
  shows "ring_follows m (log @ [e]) (offer e t)"
proof -
  obtain es where es: "tk_sink t = MemorySink (fold (\<lambda>e m. snd (memory_log e m)) es m)"
    "subseq (es @ ch_queue (tk_channel t)) log"
    "length log \<le> 1000 \<longrightarrow> es @ ch_queue (tk_channel t) = log"
    using assms by (auto simp: ring_follows_def)
  let ?q = "ch_queue (tk_channel t)"
  have sub: "subseq (es @ ?q) (log @ [e])" "subseq (es @ ?q @ [e]) (log @ [e])"
    using list_emb_append_mono [OF es(2), of "[]" "[e]"] list_emb_append_mono [OF es(2), of "[e]" "[e]"]
    by simp_all
  have t: "ch_open (tk_channel t)" "ch_capacity (tk_channel t) = 1000" "\<not> lk_poisoned (ms_buffer m)"
    using assms by (simp_all add: ring_follows_def)
  show ?thesis
  proof (cases "length ?q < 1000")
    case True
    with t es(1,3) sub(2) show ?thesis
      unfolding ring_follows_def by (auto simp: offer_def try_send_def intro!: exI [of _ es])
  next
    case False
    have "\<not> length log \<le> 999"
    proof
      assume le: "length log \<le> 999"
      with es(3) have "length (es @ ?q) = length log" by simp
      with le False show False by simp
    qed
    with False t es(1) sub(1) show ?thesis
      unfolding ring_follows_def by (auto simp: offer_def try_send_def intro!: exI [of _ es])
  qed
qed

lemma ring_follows_turn:
  assumes "ring_follows m log t"
  shows "ring_follows m log (sink_turn show_ip show_rt t)"
proof (cases "ch_queue (tk_channel t)")
  case Nil
  then show ?thesis using assms by (simp add: sink_turn_def recv_def)
next
  case (Cons e queue)
  let ?log = "\<lambda>e m. snd (memory_log e m)"
  obtain es where es: "tk_sink t = MemorySink (fold ?log es m)"
    "subseq (es @ ch_queue (tk_channel t)) log"
    "length log \<le> 1000 \<longrightarrow> es @ ch_queue (tk_channel t) = log"
    using assms by (auto simp: ring_follows_def)
  have open_ready: "ch_open (tk_channel t)" "\<not> lk_poisoned (ms_buffer m)"
    using assms by (simp_all add: ring_follows_def)
  then have "task_ready t"
    using memory.run_ready [of m es] by (simp add: task_ready_def es(1))
  then have "tk_sink (sink_turn show_ip show_rt t) = MemorySink (fold ?log (es @ [e]) m)"
    "tk_channel (sink_turn show_ip show_rt t) = (tk_channel t)\<lparr>ch_queue := queue\<rparr>"
    by (simp_all add: sink_turn_ready recv_def Cons es(1) case_prod_unfold)
  then show ?thesis
    using assms es Cons unfolding ring_follows_def by (intro conjI exI [of _ "es @ [e]"]) auto
qed

lemma sink_turn_ring:
  "(\<exists>m. tk_sink (sink_turn show_ip show_rt t) = MemorySink m) \<longleftrightarrow> (\<exists>m. tk_sink t = MemorySink m)"
  using dyn_log_ring [of show_ip show_rt _ "tk_sink t"]
  by (auto simp: sink_turn_def split: prod.split option.split sum.split) (metis snd_conv)+

lemma writer_turn_ring:
  "tk_sink (writer_turn fails show_ip show_rt clk t) = MemorySink m \<longleftrightarrow> tk_sink t = MemorySink m"
  by (simp add: writer_turn_def split: sink.split)

interpretation ring: task_observer ring_observed
proof unfold_locales
  fix t t0 :: sink_task and log e show_ip show_rt fails clk
  show "fresh_task t \<Longrightarrow> ring_observed t [] t"
    by (auto simp: ring_observed_def ring_follows_def fresh_task_def task_ready_def channel_new_def
        split: sink.split intro: exI [of _ "[]"])
  assume t: "ring_observed t0 log t"
  show "ring_observed t0 (log @ [e]) (offer e t)"
    using t ring_follows_offer by (auto simp: ring_observed_def offer_def split: sink.splits)
  show "ring_observed t0 log (sink_turn show_ip show_rt t)"
    using t ring_follows_turn sink_turn_ring [of show_ip show_rt t]
    by (auto simp: ring_observed_def split: sink.splits)
  show "ring_observed t0 log (writer_turn fails show_ip show_rt clk t)"
    using t by (auto simp: ring_observed_def ring_follows_def writer_turn_ring split: sink.splits)
qed

section \<open>The table\<close>

definition stored_row :: "query_log_entry \<Rightarrow> db_row \<Rightarrow> bool" where
  "stored_row e r \<longleftrightarrow> (\<exists>show_ip show_rt i ts name. r = row_of_entry show_ip show_rt i ts e name)"

text \<open>
  The rows: what is left of those there at the start, then those that store the entries \<open>stored\<close>, in
  their order.
\<close>

definition holds_logged :: "db_row list \<Rightarrow> query_log_entry list \<Rightarrow> db_row list \<Rightarrow> bool" where
  "holds_logged rows0 stored rows \<longleftrightarrow>
     (\<exists>old new. rows = old @ new \<and> subseq old rows0 \<and> list_all2 stored_row stored new)"

text \<open>
  The entries stored, those the writer has still to store and those in the channel, one after the
  other, are a subsequence of what was logged.
\<close>

definition table_follows :: "sqlite_sink \<Rightarrow> query_log_entry list \<Rightarrow> sink_task \<Rightarrow> bool" where
  "table_follows q0 log t \<longleftrightarrow>
     (\<exists>q stored. tk_sink t = SqliteSink q
        \<and> holds_logged (rows_of (sw_db (ss_writer q0))) stored (rows_of (sw_db (ss_writer q)))
        \<and> subseq (stored @ ss_channel q @ ch_queue (tk_channel t)) log)"

definition table_observed :: "sink_task \<Rightarrow> query_log_entry list \<Rightarrow> sink_task \<Rightarrow> bool" where
  "table_observed t0 log t \<longleftrightarrow>
     (case tk_sink t0 of SqliteSink q \<Rightarrow> table_follows q log t | _ \<Rightarrow> \<forall>q. tk_sink t \<noteq> SqliteSink q)"

lemma stored_rowI [intro]: "stored_row e (row_of_entry show_ip show_rt i ts e name)"
  unfolding stored_row_def by blast

lemma insert_log_stored:
  assumes "insert_log fails show_ip show_rt wall e name d = (r, d')" "holds_logged rows0 stored (rows_of d)"
  shows "\<exists>stored'. subseq stored' (stored @ [e]) \<and> holds_logged rows0 stored' (rows_of d')"
proof -
  have "rows_of d' = rows_of d \<or> (\<exists>row. rows_of d' = rows_of d @ [row] \<and> stored_row e row)"
    using assms(1) by (auto simp: insert_log_def rows_of_def split: sum.splits if_splits)
  then show ?thesis
  proof
    assume "rows_of d' = rows_of d"
    moreover have "subseq stored (stored @ [e])"
      using list_emb_append_mono [OF subseq_order.refl [of stored], of "[]" "[e]"] by simp
    ultimately show ?thesis using assms(2) by (intro exI [of _ stored]) simp
  next
    assume "\<exists>row. rows_of d' = rows_of d @ [row] \<and> stored_row e row"
    then obtain row where row: "rows_of d' = rows_of d @ [row]" "stored_row e row" by blast
    obtain old new where "rows_of d = old @ new" "subseq old rows0" "list_all2 stored_row stored new"
      using assms(2) by (auto simp: holds_logged_def)
    with row have "holds_logged rows0 (stored @ [e]) (rows_of d')"
      unfolding holds_logged_def by (intro exI [of _ old] exI [of _ "new @ [row]"]) (simp add: list_all2_appendI)
    then show ?thesis by blast
  qed
qed

lemma list_all2_filter_right:
  "list_all2 P xs ys \<Longrightarrow> \<exists>xs'. subseq xs' xs \<and> list_all2 P xs' (filter Q ys)"
proof (induction rule: list_all2_induct)
  case (Cons x xs y ys)
  then obtain xs' where "subseq xs' xs" "list_all2 P xs' (filter Q ys)" by blast
  with Cons.hyps(1) show ?case
    by (cases "Q y") (auto intro: exI [of _ "x # xs'"] exI [of _ xs'])
qed simp

lemma prune_logs_stored:
  assumes "prune_logs fails wall hours d = (r, d')" "holds_logged rows0 stored (rows_of d)"
  shows "\<exists>stored'. subseq stored' stored \<and> holds_logged rows0 stored' (rows_of d')"
proof -
  have "\<exists>Q. rows_of d' = filter Q (rows_of d)"
    using assms(1) by (auto simp: prune_logs_def rows_of_def Let_def split: sum.splits if_splits
        intro: exI [of _ "\<lambda>_. True"])
  then obtain Q where Q: "rows_of d' = filter Q (rows_of d)" by blast
  obtain old new where o: "rows_of d = old @ new" "subseq old rows0" "list_all2 stored_row stored new"
    using assms(2) by (auto simp: holds_logged_def)
  obtain stored' where st: "subseq stored' stored" "list_all2 stored_row stored' (filter Q new)"
    using list_all2_filter_right [OF o(3)] by blast
  have "subseq (filter Q old) rows0" using o(2) subseq_filter_left subseq_order.trans by blast
  with o(1) Q st(2) have "holds_logged rows0 stored' (rows_of d')"
    unfolding holds_logged_def by (intro exI [of _ "filter Q old"] exI [of _ "filter Q new"]) simp
  with st(1) show ?thesis by blast
qed

lemma writer_round_stored:
  assumes "writer_round fails show_ip show_rt clk e w = (r, w')" "holds_logged rows0 stored (rows_of (sw_db w))"
  shows "\<exists>stored'. subseq stored' (stored @ [e]) \<and> holds_logged rows0 stored' (rows_of (sw_db w'))"
proof -
  obtain r1 d1 where i: "insert_log fails show_ip show_rt (wc_insert clk) e
      (source_name (sw_blocklist_names w) (le_source_id e)) (sw_db w) = (r1, d1)" by fastforce
  obtain r2 d2 where p: "prune_logs fails (wc_prune clk) (sw_retention_hours w) d1 = (r2, d2)" by fastforce
  have "sw_db w' \<in> {d1, d2}"
    using assms(1) by (auto simp: writer_round_def i p Let_def split: sum.splits if_splits)
  moreover obtain st1 where st1: "subseq st1 (stored @ [e])" "holds_logged rows0 st1 (rows_of d1)"
    using insert_log_stored [OF i assms(2)] by blast
  moreover obtain st2 where "subseq st2 st1" "holds_logged rows0 st2 (rows_of d2)"
    using prune_logs_stored [OF p st1(2)] by blast
  ultimately show ?thesis using subseq_order.trans by blast
qed

lemma run_writer_follows:
  assumes "table_follows q0 log t"
  shows "table_follows q0 log (writer_turn fails show_ip show_rt clk t)"
proof -
  obtain q stored where q: "tk_sink t = SqliteSink q"
    "holds_logged (rows_of (sw_db (ss_writer q0))) stored (rows_of (sw_db (ss_writer q)))"
    "subseq (stored @ ss_channel q @ ch_queue (tk_channel t)) log"
    using assms by (auto simp: table_follows_def)
  show ?thesis
  proof (cases "ss_channel q = [] \<or> \<not> ss_writer_alive q")
    case True
    then have "run_sqlite_writer fails show_ip show_rt clk q = q"
      by (auto simp: run_sqlite_writer_def split: list.split)
    with q(1) have "writer_turn fails show_ip show_rt clk t = t" by (cases t) (simp add: writer_turn_def)
    with assms show ?thesis by simp
  next
    case False
    then obtain e es where e: "ss_channel q = e # es" "ss_writer_alive q" by (cases "ss_channel q") auto
    obtain r w where round: "writer_round fails show_ip show_rt clk e (ss_writer q) = (r, w)" by fastforce
    obtain st where st: "subseq st (stored @ [e])"
      "holds_logged (rows_of (sw_db (ss_writer q0))) st (rows_of (sw_db w))"
      using writer_round_stored [OF round q(2)] by blast
    have "subseq (st @ es @ ch_queue (tk_channel t)) ((stored @ [e]) @ es @ ch_queue (tk_channel t))"
      "subseq (st @ [] @ ch_queue (tk_channel t)) ((stored @ [e]) @ es @ ch_queue (tk_channel t))"
      using list_emb_append_mono [OF st(1) subseq_order.refl [of "es @ ch_queue (tk_channel t)"]]
        list_emb_append_mono [OF st(1) list_emb_append2 [OF subseq_order.refl], of "ch_queue (tk_channel t)" es]
      by simp_all
    then have "subseq (st @ es @ ch_queue (tk_channel t)) log" "subseq (st @ [] @ ch_queue (tk_channel t)) log"
      using q(3) e(1) by (auto intro: subseq_order.trans)
    with st(2) q(1) show ?thesis
      by (cases r) (auto simp: table_follows_def writer_turn_def run_sqlite_writer_def e round)
  qed
qed

lemma sink_turn_table_follows:
  assumes "table_follows q0 log t"
  shows "table_follows q0 log (sink_turn show_ip show_rt t)"
proof -
  obtain q stored where q: "tk_sink t = SqliteSink q"
    "holds_logged (rows_of (sw_db (ss_writer q0))) stored (rows_of (sw_db (ss_writer q)))"
    "subseq (stored @ ss_channel q @ ch_queue (tk_channel t)) log"
    using assms by (auto simp: table_follows_def)
  show ?thesis
  proof (cases "ch_queue (tk_channel t)")
    case Nil
    then show ?thesis using assms by (simp add: sink_turn_def recv_def)
  next
    case (Cons e es)
    have "subseq ((stored @ ss_channel q) @ es) ((stored @ ss_channel q) @ e # es)"
      by (intro list_emb_append_mono) auto
    then have "subseq ((stored @ ss_channel q) @ es) log"
      using q(3) Cons by (auto intro: subseq_order.trans)
    with q Cons assms show ?thesis
      by (auto simp: table_follows_def sink_turn_def recv_def sqlite_log_def)
  qed
qed

lemma offer_table_follows:
  assumes "table_follows q0 log t"
  shows "table_follows q0 (log @ [e]) (offer e t)"
proof -
  obtain q stored where q: "tk_sink t = SqliteSink q"
    "holds_logged (rows_of (sw_db (ss_writer q0))) stored (rows_of (sw_db (ss_writer q)))"
    "subseq (stored @ ss_channel q @ ch_queue (tk_channel t)) log"
    using assms by (auto simp: table_follows_def)
  have "subseq (stored @ ss_channel q @ ch_queue (tk_channel t)) (log @ [e])"
    "subseq (stored @ ss_channel q @ ch_queue (tk_channel t) @ [e]) (log @ [e])"
    using list_emb_append_mono [OF q(3), of "[]" "[e]"] list_emb_append_mono [OF q(3), of "[e]" "[e]"]
    by simp_all
  with q(1,2) show ?thesis by (auto simp: table_follows_def offer_def try_send_def)
qed

lemma sink_turn_table:
  "(\<exists>q. tk_sink (sink_turn show_ip show_rt t) = SqliteSink q) \<longleftrightarrow> (\<exists>q. tk_sink t = SqliteSink q)"
proof -
  have "(\<exists>q. snd (dyn_log show_ip show_rt e (tk_sink t)) = SqliteSink q) \<longleftrightarrow> (\<exists>q. tk_sink t = SqliteSink q)" for e
    by (cases "tk_sink t") (auto split: prod.split)
  then show ?thesis
    by (auto simp: sink_turn_def split: prod.split option.split sum.split) (metis snd_conv)+
qed

lemma writer_turn_table:
  "(\<exists>q. tk_sink (writer_turn fails show_ip show_rt clk t) = SqliteSink q) \<longleftrightarrow> (\<exists>q. tk_sink t = SqliteSink q)"
  by (auto simp: writer_turn_def split: sink.split)

interpretation table: task_observer table_observed
proof unfold_locales
  fix t t0 :: sink_task and log e show_ip show_rt fails clk
  show "fresh_task t \<Longrightarrow> table_observed t [] t"
    by (auto simp: table_observed_def table_follows_def holds_logged_def fresh_task_def channel_new_def
        split: sink.split intro: exI [of _ "[]"])
  assume t: "table_observed t0 log t"
  show "table_observed t0 (log @ [e]) (offer e t)"
    using t offer_table_follows by (auto simp: table_observed_def offer_def split: sink.splits)
  show "table_observed t0 log (sink_turn show_ip show_rt t)"
    using t sink_turn_table_follows sink_turn_table [of show_ip show_rt t]
    by (auto simp: table_observed_def split: sink.splits)
  show "table_observed t0 log (writer_turn fails show_ip show_rt clk t)"
    using t run_writer_follows writer_turn_table [of fails show_ip show_rt clk t]
    by (auto simp: table_observed_def split: sink.splits)
qed

section \<open>What the start-up puts in place\<close>

lemma fresh_spawned [simp]:
  "fresh_task (spawn_sink (ConsoleSink s))" "fresh_task (spawn_sink (SqliteSink (sqlite_new d c names now)))"
  "fresh_task (spawn_sink (MemorySink (memory_new n)))"
  by (simp_all add: fresh_task_def task_ready_def spawn_sink_def channel_new_def sqlite_new_def memory_new_def)

lemma spawn_sink_sink [simp]: "tk_sink (spawn_sink s) = s"
  by (simp add: spawn_sink_def)

lemma configured_sinks_follow:
  "t \<in> set (configured_sinks c names now types w) \<Longrightarrow>
   fresh_task t \<and> (\<forall>q. tk_sink t = SqliteSink q \<longrightarrow> (\<exists>d. w = Some d \<and> sw_db (ss_writer q) = d))"
proof (induction c names now types w rule: configured_sinks.induct)
  case (2 c names now sink_type types w)
  have "sw_db (ss_writer (sqlite_new d c names now)) = d" for d by (simp add: sqlite_new_def)
  with 2 show ?case by (auto split: if_splits option.splits)
qed simp

lemma pipeline_fresh:
  assumes "init_pipeline b c names = (source, l)" "t \<in> set l"
  shows "fresh_task t \<and> (\<forall>q d. tk_sink t = SqliteSink q \<longrightarrow> source = PersistentSource d \<longrightarrow> sw_db (ss_writer q) = d)"
  using assms configured_sinks_follow [of t "cf_logging c" names "be_wall b" "lg_query_log_sinks (cf_logging c)"]
  by (auto simp: init_pipeline_def create_memory_source_def create_persistent_source_def
      init_query_logger_def query_logger_new_def log_writer_new_def res_bind_def Let_def
      split: option.split_asm sum.split_asm)

text \<open>The sinks of a service without a database: the configured ones, then the ring buffer.\<close>

lemma memory_pipeline:
  assumes "init_pipeline b c names = (InMemorySource, l)"
  shows "l = query_logger_new (cf_logging c) names [MemorySink (memory_new 100)] None (be_wall b)"
    "l \<noteq> []" "tk_sink (last l) = MemorySink (memory_new 100)"
    "\<And>t m. t \<in> set (butlast l) \<Longrightarrow> tk_sink t \<noteq> MemorySink m"
  using assms configured_sinks_no_ring
  by (auto simp: init_pipeline_def create_memory_source_def create_persistent_source_def
      init_query_logger_def query_logger_new_def spawn_sink_def Let_def split: option.split_asm)

lemma ring_of_last:
  assumes "l \<noteq> []" "tk_sink (last l) = MemorySink m"
    and "\<And>t m. t \<in> set (butlast l) \<Longrightarrow> tk_sink t \<noteq> MemorySink m"
  shows "ring_of l = m"
proof -
  have "concat (map (\<lambda>t. case tk_sink t of MemorySink m \<Rightarrow> [m] | _ \<Rightarrow> []) (butlast l)) = []"
    using assms(3) by (auto split: sink.split)
  then have "concat (map (\<lambda>t. case tk_sink t of MemorySink m \<Rightarrow> [m] | _ \<Rightarrow> []) (butlast l @ [last l])) = [m]"
    using assms(2) by simp
  then show ?thesis using assms(1) by (simp add: ring_of_def)
qed


lemma table_of_cases:
  "table_of d l = d \<or> (\<exists>t \<in> set l. \<exists>q. tk_sink t = SqliteSink q \<and> table_of d l = sw_db (ss_writer q))"
proof (cases "[q. t \<leftarrow> l, SqliteSink q \<leftarrow> [tk_sink t]]")
  case Nil
  then have "table_of d l = d" by (simp only: table_of_def list.case)
  then show ?thesis by blast
next
  case (Cons q qs)
  then have "q \<in> set [q. t \<leftarrow> l, SqliteSink q \<leftarrow> [tk_sink t]]" by simp
  then have "\<exists>t \<in> set l. tk_sink t = SqliteSink q" by (auto split: sink.splits)
  moreover have "table_of d l = sw_db (ss_writer q)" by (simp only: table_of_def Cons list.case)
  ultimately show ?thesis by blast
qed

section \<open>In every reachable state\<close>

lemma reachable_source: "sys_reachable c s0 s \<Longrightarrow> sy_source s = sy_source s0"
proof (induction rule: sys_reachable.induct)
  case (step s s')
  from step.hyps(2) have "sy_source s' = sy_source s"
  proof (cases rule: sys_step.cases)
    case task
    then show ?thesis
      by (cases rule: task_step.cases) (simp_all add: after_arrival_def after_resolution_def on_handler_def)
  qed (simp add: api_update_def)
  with step.IH show ?case by simp
qed simp

lemma reply_logs [simp]: "reply LogsReply r = LogsReply es \<longleftrightarrow> r = Inr es"
  by (cases r) auto

lemma list_all2_origin:
  "list_all2 P xs ys \<Longrightarrow> y \<in> set ys \<Longrightarrow> \<exists>x \<in> set xs. P x y"
  by (metis in_set_conv_nth list_all2_lengthD list_all2_nthD2)

lemma booted_logger:
  assumes "boot b = Inr (c, source, h)"
  obtains names where "init_pipeline b c names = (source, dh_logger h)" "\<forall>t \<in> set (dh_logger h). fresh_task t"
proof -
  from boot_parts [OF assms] obtain names logger r where
    p: "init_pipeline b c names = (source, logger)"
    and h: "h = dns_handler_new (be_parse_name b) c (fst (init_app_stats c (be_now b))) logger
       (refresh (be_uni b) (be_get b) (be_order b) c) r app_state_new" .
  have "dh_logger h = logger" by (simp add: h dns_handler_new_def)
  with p pipeline_fresh [OF p] that show ?thesis by simp
qed

text \<open>What a sink of the service is, and the log it was given.\<close>

lemma reachable_ring:
  assumes "boot b = Inr (c, InMemorySource, h)" "list_all2 (\<lambda>t0. ring_observed t0 log) (dh_logger h) l"
  shows "ring_follows (memory_new 100) log (last l) \<and> (\<forall>m. tk_sink (last l) = MemorySink m \<longrightarrow> ring_of l = m)"
proof -
  obtain names where p: "init_pipeline b c names = (InMemorySource, dh_logger h)"
    using booted_logger [OF assms(1)] by blast
  note l0 = memory_pipeline [OF p]
  obtain xs x where x: "dh_logger h = xs @ [x]" using l0(2) by (metis rev_exhaust)
  with assms(2) obtain ys y where y: "l = ys @ [y]" "list_all2 (\<lambda>t0. ring_observed t0 log) xs ys"
    "ring_observed x log y"
    by (auto simp: list_all2_append1 list_all2_Cons1)
  have ring: "ring_follows (memory_new 100) log y"
    using y(3) l0(3) by (simp add: x ring_observed_def)
  have "tk_sink t \<noteq> MemorySink m" if t: "t \<in> set ys" for t m
  proof -
    obtain t0 where "t0 \<in> set xs" "ring_observed t0 log t" using list_all2_origin [OF y(2) t] by blast
    moreover from this have "tk_sink t0 \<noteq> MemorySink m" for m using l0(4) [of t0] by (simp add: x)
    ultimately show ?thesis by (auto simp: ring_observed_def split: sink.splits)
  qed
  then have "ring_of l = m" if "tk_sink y = MemorySink m" for m
    using that by (intro ring_of_last) (simp_all add: y(1))
  with ring show ?thesis by (simp add: y(1))
qed

lemma reachable_table:
  assumes "boot b = Inr (c, PersistentSource d, h)" "list_all2 (\<lambda>t0. table_observed t0 log) (dh_logger h) l"
  shows "\<exists>stored. subseq stored log \<and> holds_logged (rows_of d) stored (rows_of (table_of d l))"
proof -
  obtain names where p: "init_pipeline b c names = (PersistentSource d, dh_logger h)"
    using booted_logger [OF assms(1)] by blast
  have "\<exists>stored. subseq stored log \<and> holds_logged (rows_of d) stored (rows_of (table_of d l))"
    if t: "t \<in> set l" "tk_sink t = SqliteSink q" "table_of d l = sw_db (ss_writer q)" for t q
  proof -
    obtain t0 where t0: "t0 \<in> set (dh_logger h)" "table_observed t0 log t"
      using list_all2_origin [OF assms(2) t(1)] by blast
    then obtain q0 where q0: "tk_sink t0 = SqliteSink q0" "table_follows q0 log t"
      using t(2) by (auto simp: table_observed_def split: sink.splits)
    moreover from this have "sw_db (ss_writer q0) = d" using pipeline_fresh [OF p t0(1)] by simp
    ultimately obtain stored where
      "holds_logged (rows_of d) stored (rows_of (table_of d l))"
      "subseq (stored @ ss_channel q @ ch_queue (tk_channel t)) log"
      using t(2,3) by (auto simp: table_follows_def)
    then show ?thesis by (auto dest: list_emb_appendD [of _ stored])
  qed
  moreover have "holds_logged (rows_of d) [] (rows_of d)" by (auto simp: holds_logged_def)
  ultimately show ?thesis using table_of_cases [of d l] by (metis list_emb_Nil)
qed

text \<open>At the start the writer's table is the one the API reads.\<close>

lemma booted_table:
  assumes "boot b = Inr (c, PersistentSource d, h)"
  shows "table_of d (dh_logger h) = d"
proof -
  obtain names where p: "init_pipeline b c names = (PersistentSource d, dh_logger h)"
    using booted_logger [OF assms] by blast
  show ?thesis using table_of_cases [of d "dh_logger h"] pipeline_fresh [OF p] by auto
qed

section \<open>The ring of a service without a database\<close>

text \<open>What the ring's task and the API's handle to the ring are, in every reachable state.\<close>

lemma memory_service_log:
  assumes "boot b = Inr (c, InMemorySource, h)"
    and "sys_reachable c (spawn_background_tasks now bind c InMemorySource h) s"
  obtains log where
    "if lg_enable (cf_logging c) then list_all2 (recorded (set (sy_requests s))) log (dh_sent (sy_handler s)) else log = []"
    "ring_follows (memory_new 100) log (last (dh_logger (sy_handler s)))" "dh_logger (sy_handler s) \<noteq> []"
    "\<And>m. tk_sink (last (dh_logger (sy_handler s))) = MemorySink m \<Longrightarrow> ring_of (dh_logger (sy_handler s)) = m"
proof -
  let ?s0 = "spawn_background_tasks now bind c InMemorySource h" and ?l = "dh_logger (sy_handler s)"
  have start: "dh_sent (sy_handler ?s0) = []" "\<forall>t \<in> set (dh_logger (sy_handler ?s0)). fresh_task t"
    using boot_fields(3) [OF assms(1)] booted_logger [OF assms(1)] by auto
  have c: "dh_config (sy_handler s) = c"
    using reachable_inv [OF assms(2) boot_inv [OF assms(1)]] by (simp add: system_inv_def handler_inv_def)
  obtain log where log: "logged ring_observed (dh_logger h) (set (sy_requests s)) log (sy_handler s)"
    using ring.logged_reachable [OF assms(2) boot_inv [OF assms(1)] start] by auto
  then have all: "list_all2 (\<lambda>t0. ring_observed t0 log) (dh_logger h) ?l" by (simp add: logged_def)
  obtain names where "init_pipeline b c names = (InMemorySource, dh_logger h)"
    using booted_logger [OF assms(1)] by blast
  then have "?l \<noteq> []" using memory_pipeline(2) all by (metis list_all2_Nil2)
  with that [of log] log reachable_ring [OF assms(1) all] c show ?thesis by (auto simp: logged_def)
qed

text \<open>The task empties its channel when it gets its turns, and nothing a client sees changes.\<close>

lemma ring_drains:
  assumes "dh_logger (sy_handler s) \<noteq> []" "ring_follows m log (last (dh_logger (sy_handler s)))"
  shows "\<exists>s'. (task_step c)\<^sup>*\<^sup>* s s' \<and> ch_queue (tk_channel (last (dh_logger (sy_handler s')))) = []
    \<and> dh_sent (sy_handler s') = dh_sent (sy_handler s) \<and> sy_requests s' = sy_requests s"
  using assms
proof (induction "length (ch_queue (tk_channel (last (dh_logger (sy_handler s)))))" arbitrary: s)
  case 0
  then show ?case by auto
next
  case (Suc n)
  let ?l = "dh_logger (sy_handler s)" and ?j = "length (dh_logger (sy_handler s)) - 1"
  let ?l1 = "logger_step plain_show_ip plain_show_rt (Turn ?j) ?l"
  let ?s1 = "on_handler (\<lambda>h. h\<lparr>dh_logger := logger_step plain_show_ip plain_show_rt (Turn ?j) (dh_logger h)\<rparr>) s"
  have step: "task_step c s ?s1" by (rule task_step.sink)
  have l1: "dh_logger (sy_handler ?s1) = ?l1" "?l1 \<noteq> []" "last ?l1 = sink_turn plain_show_ip plain_show_rt (last ?l)"
    using Suc.prems(1) by (simp_all add: on_handler_def last_list_update last_conv_nth)
  obtain e es where queue: "ch_queue (tk_channel (last ?l)) = e # es"
    using Suc.hyps(2) by (cases "ch_queue (tk_channel (last ?l))") auto
  have "task_ready (last ?l)"
    using Suc.prems(2) memory.run_ready [of m] by (auto simp: ring_follows_def task_ready_def)
  then have "ch_queue (tk_channel (last ?l1)) = es"
    unfolding l1(3) by (simp add: sink_turn_ready recv_def queue)
  then have "n = length (ch_queue (tk_channel (last (dh_logger (sy_handler ?s1)))))"
    using Suc.hyps(2) queue l1(1) by simp
  from Suc.hyps(1) [OF this] ring_follows_turn [OF Suc.prems(2)] l1 obtain s' where
    s': "(task_step c)\<^sup>*\<^sup>* ?s1 s'" "ch_queue (tk_channel (last (dh_logger (sy_handler s')))) = []"
    "dh_sent (sy_handler s') = dh_sent (sy_handler ?s1)" "sy_requests s' = sy_requests ?s1"
    by auto
  with step show ?case
    by (intro exI [of _ s']) (auto simp: on_handler_def intro: converse_rtranclp_into_rtranclp)
qed

lemma tasks_reachable: "(task_step c)\<^sup>*\<^sup>* s s' \<Longrightarrow> sys_reachable c s0 s \<Longrightarrow> sys_reachable c s0 s'"
  by (induction rule: rtranclp_induct) (auto intro: sys_reachable.step sys_step.task)

text \<open>What the API shows of the ring.\<close>

lemma get_logs_ring:
  assumes "router_contract (ap_router ae)" "sy_source s = InMemorySource"
    and "ring_of (dh_logger (sy_handler s)) = fold (\<lambda>e m. snd (memory_log e m)) es (memory_new 100)"
  shows "fst (api_serve ae \<lparr>hq_method = GET, hq_path = ''/api/logs'', hq_body = []\<rparr> (api_view c s)) =
    Some (LogsReply (take 100 (rev es)))"
proof -
  have "ap_router ae routes GET ''/api/logs'' = Matched GetLogs"
    by (rule routed_endpoint [OF assms(1)]) (simp add: routes_def)
  then show ?thesis
    using api_logs_newest_first [of es]
    by (simp add: api_serve_def api_view_def assms(2,3) api_get_logs_def)
qed

section \<open>A start-up with a database, for the examples\<close>

text \<open>The table already has one row.\<close>

definition stored_query :: db_row where
  "stored_query = row_of_entry plain_show_ip plain_show_rt 1 0
     \<lparr>le_client_ip = V4 7, le_domain = ''ads'', le_query_type = RT_A, le_action = Blocked,
      le_source_id = None, le_upstream = None, le_latency_ms = 5, le_ttl_remaining = None\<rparr> None"

definition database_config :: config where
  "database_config = config_default\<lparr>cf_logging := (cf_logging config_default)\<lparr>lg_query_log_sinks := [''sqlite'']\<rparr>\<rparr>"

definition database_boot :: boot_env where
  "database_boot = (let opens = \<lparr>cn_open = (\<lambda>_. Inr ()), cn_journal_mode = Inr (), cn_busy_timeout = Inr ()\<rparr> in
     (sample_boot database_config [])\<lparr>be_client_conn := opens, be_writer_conn := opens,
       be_db_file := (\<lambda>_. \<lparr>db_rows = Some [stored_query], db_has_ttl_column = True, db_indices = [],
         db_next_id = 2\<rparr>)\<rparr>)"

lemma database_boots:
  "\<exists>d h. boot database_boot = Inr (database_config, PersistentSource d, h)
     \<and> table_ready d \<and> rows_of d = [stored_query]"
proof -
  let ?c = database_config
  have net: "be_net database_boot = be_net (sample_boot ?c [])" by (simp add: database_boot_def Let_def)
  obtain r where r: "create_resolver (be_net database_boot) ?c = Inr r"
    using create_resolver_spec [of "be_net (sample_boot ?c [])" ?c] unfolding net
    by (auto simp: sample_usable split: sum.splits if_splits)
  have c: "load_config database_boot = Inr (?c, ''config.toml'')"
    by (simp add: load_config_def database_boot_def sample_boot_def load_def de_ser_config opt_index_def Let_def)
  have "\<exists>d. init_sqlite_db database_boot ?c = Some d \<and> table_ready d \<and> rows_of d = [stored_query]"
    by (simp add: init_sqlite_db_def database_config_def database_boot_def db_client_new_def open_connection_def
        res_bind_def sample_boot_def initialize_def create_table_def log_indices_def table_ready_def
        rows_of_def Let_def)
  then obtain d where d: "init_sqlite_db database_boot ?c = Some d" "table_ready d" "rows_of d = [stored_query]"
    by blast
  with c r show ?thesis
    by (auto simp: boot_def init_pipeline_def create_persistent_source_def Let_def split: prod.splits)
qed

end
