(* ===== verification/Service_Spec.thy ===== *)
theory Service_Spec
  imports System_Model
begin

text \<open>
  The abstract specification of the running service: what its clients and its operator see, without
  the tasks, the channels, the counters and the logs. A query is filtered, answered from the local
  records, blocked, answered from what upstreams said before, or passed on, in this order. The
  system of \<open>System_Model\<close> is shown to refine it: every step of a task or the API is a sequence of
  steps of the specification (none for the sinks and the writer).
\<close>

section \<open>The specification's state\<close>

text \<open>A waiting question is the identifier of its request, its name and its type.\<close>

type_synonym question = "u16 \<times> string \<times> rtype"

datatype pause = Running | PausedUntil instant | Broken

record service =
  sv_answered :: "response list"
  sv_waiting :: "question multiset"
  sv_failed :: nat
  sv_local :: "string \<rightharpoonup> dns_record list"
  sv_listed :: "string set"
  sv_known :: "(cache_key \<times> dns_record list) set"
  sv_pause :: pause
  sv_wanted :: bool
  sv_fetching :: bool

fun blocking_at :: "pause \<Rightarrow> instant \<Rightarrow> bool" where
  "blocking_at Running now = True"
| "blocking_at (PausedUntil u) now = (u \<le> now)"
| "blocking_at Broken now = False"

section \<open>Answers and guards\<close>

definition plain_answer :: "u16 \<Rightarrow> dns_record list \<Rightarrow> response \<Rightarrow> bool" where
  "plain_answer i rs resp \<longleftrightarrow>
     response_id resp = i \<and> hd_rcode (rs_header resp) = NoError \<and> rs_answers resp = rs"

definition failure_answer :: "u16 \<Rightarrow> response \<Rightarrow> bool" where
  "failure_answer i resp \<longleftrightarrow>
     response_id resp = i \<and> hd_rcode (rs_header resp) = ServFail \<and> rs_answers resp = []"

definition block_answer :: "u16 \<Rightarrow> rtype \<Rightarrow> response \<Rightarrow> bool" where
  "block_answer i t resp \<longleftrightarrow> response_id resp = i \<and>
     (case t of
        RT_A \<Rightarrow> hd_rcode (rs_header resp) = NoError \<and> map rec_data (rs_answers resp) = [RD_A 0]
      | RT_AAAA \<Rightarrow> hd_rcode (rs_header resp) = NoError \<and> map rec_data (rs_answers resp) = [RD_AAAA 0]
      | RT_Other _ \<Rightarrow> hd_rcode (rs_header resp) = NXDomain \<and> rs_answers resp = [])"

definition filtered :: "config \<Rightarrow> rtype \<Rightarrow> bool" where
  "filtered c t \<longleftrightarrow> cf_disable_ipv6 c \<and> t = RT_AAAA"

definition local_for :: "service \<Rightarrow> string \<Rightarrow> rtype \<Rightarrow> dns_record list option" where
  "local_for v n t =
     (case sv_local v n of
        Some rs \<Rightarrow> if rs \<noteq> [] \<and> record_type (hd rs) = t then Some rs else None
      | None \<Rightarrow> None)"

text \<open>A question no rule of the configuration settles: only then it may be blocked or passed.\<close>

definition unsettled :: "config \<Rightarrow> service \<Rightarrow> string \<Rightarrow> rtype \<Rightarrow> bool" where
  "unsettled c v n t \<longleftrightarrow> \<not> filtered c t \<and> local_for v n t = None \<and> sv_pause v \<noteq> Broken"

definition blocked_at :: "service \<Rightarrow> instant \<Rightarrow> string \<Rightarrow> bool" where
  "blocked_at v now n \<longleftrightarrow> blocking_at (sv_pause v) now \<and> n \<in> sv_listed v"

definition answer :: "response \<Rightarrow> service \<Rightarrow> service" where
  "answer resp v = v\<lparr>sv_answered := sv_answered v @ [resp]\<rparr>"

definition settle :: "question \<Rightarrow> service \<Rightarrow> service" where
  "settle q v = v\<lparr>sv_waiting := sv_waiting v - {#q#}\<rparr>"

section \<open>The steps\<close>

inductive service_step :: "config \<Rightarrow> service \<Rightarrow> service \<Rightarrow> bool" for c where
  filter_out: "filtered c t \<Longrightarrow> plain_answer i [] resp \<Longrightarrow> service_step c v (answer resp v)"
| serve_local: "\<not> filtered c t \<Longrightarrow> local_for v n t = Some rs \<Longrightarrow> plain_answer i rs resp \<Longrightarrow>
     service_step c v (answer resp v)"
| block: "unsettled c v n t \<Longrightarrow> blocked_at v now n \<Longrightarrow> block_answer i t resp \<Longrightarrow>
     service_step c v (answer resp v)"
| serve_known: "unsettled c v n t \<Longrightarrow> \<not> blocked_at v now n \<Longrightarrow> ((n, t), rs) \<in> sv_known v \<Longrightarrow>
     plain_answer i rs resp \<Longrightarrow> service_step c v (answer resp v)"
| forward: "unsettled c v n t \<Longrightarrow> \<not> blocked_at v now n \<Longrightarrow>
     service_step c v (v\<lparr>sv_waiting := add_mset (i, n, t) (sv_waiting v)\<rparr>)"
| reject: "service_step c v (v\<lparr>sv_failed := Suc (sv_failed v)\<rparr>)"
| learn: "cf_disable_ipv6 c \<longrightarrow> no_aaaa rs \<Longrightarrow>
     service_step c v (v\<lparr>sv_known := insert ((n, t), rs) (sv_known v)\<rparr>)"
| resolve: "(i, n, t) \<in># sv_waiting v \<Longrightarrow> ((n, t), rs) \<in> sv_known v \<Longrightarrow> plain_answer i rs resp \<Longrightarrow>
     service_step c v (answer resp (settle (i, n, t) v))"
| give_up: "(i, n, t) \<in># sv_waiting v \<Longrightarrow> failure_answer i resp \<Longrightarrow>
     service_step c v (answer resp (settle (i, n, t) v))"
| lose: "(i, n, t) \<in># sv_waiting v \<Longrightarrow>
     service_step c v ((settle (i, n, t) v)\<lparr>sv_failed := Suc (sv_failed v)\<rparr>)"
| pause: "sv_pause v \<noteq> Broken \<Longrightarrow> u < instant_limit \<Longrightarrow> service_step c v (v\<lparr>sv_pause := PausedUntil u\<rparr>)"
| resume: "sv_pause v \<noteq> Broken \<Longrightarrow> service_step c v (v\<lparr>sv_pause := Running\<rparr>)"
| break_pause: "sv_pause v \<noteq> Broken \<Longrightarrow> service_step c v (v\<lparr>sv_pause := Broken\<rparr>)"
| want: "service_step c v (v\<lparr>sv_wanted := True\<rparr>)"
| take_up: "\<not> sv_fetching v \<Longrightarrow> w \<longrightarrow> sv_wanted v \<Longrightarrow>
     service_step c v (v\<lparr>sv_wanted := w, sv_fetching := True\<rparr>)"
| update: "sv_fetching v \<Longrightarrow>
     listed = {d. d \<notin> set (cf_allowlist c) \<and> covered (\<Union>i < length (cf_blocklists c). parsed_domains uni get c i) d} \<Longrightarrow>
     service_step c v (v\<lparr>sv_listed := listed, sv_fetching := False\<rparr>)"

section \<open>Simulation\<close>

text \<open>
  A concrete system simulates an abstract one when each of its steps, from a state of the
  invariant, is a sequence of abstract steps between the abstractions, and the invariant is kept.
\<close>

locale simulation =
  fixes cstep :: "'c \<Rightarrow> 'c \<Rightarrow> bool"
    and astep :: "'a \<Rightarrow> 'a \<Rightarrow> bool"
    and view :: "'c \<Rightarrow> 'a"
    and inv :: "'c \<Rightarrow> bool"
  assumes step_sim: "inv s \<Longrightarrow> cstep s s' \<Longrightarrow> astep\<^sup>*\<^sup>* (view s) (view s')"
    and step_inv: "inv s \<Longrightarrow> cstep s s' \<Longrightarrow> inv s'"
begin

lemma run_inv: "cstep\<^sup>*\<^sup>* s s' \<Longrightarrow> inv s \<Longrightarrow> inv s'"
  by (induction rule: rtranclp_induct) (auto intro: step_inv)

lemma run_sim: "cstep\<^sup>*\<^sup>* s s' \<Longrightarrow> inv s \<Longrightarrow> astep\<^sup>*\<^sup>* (view s) (view s')"
proof (induction rule: rtranclp_induct)
  case (step s' s'')
  then show ?case using run_inv step_sim by (meson rtranclp_trans)
qed simp

text \<open>What the abstract steps keep holds, of the abstraction, after every concrete run.\<close>

lemma run_abs_invariant:
  assumes "cstep\<^sup>*\<^sup>* s s'" "inv s" "P (view s)" "\<And>v v'. P v \<Longrightarrow> astep v v' \<Longrightarrow> P v'"
  shows "P (view s')"
  using run_sim [OF assms(1,2)]
  by (induction rule: rtranclp_induct) (auto intro: assms(3,4))

end

lemma reachable_rtranclp: "sys_reachable c s s' \<longleftrightarrow> (sys_step c)\<^sup>*\<^sup>* s s'"
proof
  show "sys_reachable c s s' \<Longrightarrow> (sys_step c)\<^sup>*\<^sup>* s s'"
    by (induction rule: sys_reachable.induct) auto
  show "(sys_step c)\<^sup>*\<^sup>* s s' \<Longrightarrow> sys_reachable c s s'"
    by (induction rule: rtranclp_induct) (auto intro: sys_reachable.intros)
qed

section \<open>The abstraction\<close>

definition pause_of :: "app_state \<Rightarrow> pause" where
  "pause_of app =
     (if lk_poisoned app then Broken
      else case lk_value app of None \<Rightarrow> Running | Some u \<Rightarrow> PausedUntil u)"

definition question_of :: "request \<times> query_context \<Rightarrow> question" where
  "question_of p = (request_id (fst p), qc_name (snd p), qc_qtype (snd p))"

definition service_of :: "system \<Rightarrow> service" where
  "service_of s =
     (let h = sy_handler s in
      \<lparr>sv_answered = dh_sent h, sv_waiting = mset (map question_of (sy_pending s)),
       sv_failed = length (sy_panics s), sv_local = dh_local_records h,
       sv_listed = {d. check (dh_blocklist h) d \<noteq> None},
       sv_known = (\<lambda>(k, rs, _). (k, rs)) ` set (dh_cache h),
       sv_pause = pause_of (dh_app_state h), sv_wanted = (ch_queue (sy_refresh s) \<noteq> []),
       sv_fetching = sy_fetching s\<rparr>)"

lemma local_for_service: "local_for (service_of s) n t = local_answer (sy_handler s) n t"
  by (simp add: local_for_def local_answer_def service_of_def Let_def)

lemma pause_of_broken [simp]: "pause_of app = Broken \<longleftrightarrow> lk_poisoned app"
  by (simp add: pause_of_def split: option.split)

lemma blocking_at_pause:
  "\<not> lk_poisoned app \<Longrightarrow> is_blocking_active now app = Inr (blocking_at (pause_of app) now)"
  by (simp add: is_blocking_active_healthy pause_of_def split: option.split)

section \<open>The steps of a request\<close>

text \<open>What a decision means for the question, in the terms of the specification.\<close>

lemma decide_guards:
  assumes "cache_contract env" "dh_config (sy_handler s) = c" "n = qc_name q" "t = qc_qtype q"
  shows "case decide env q (sy_handler s) of
      Filtered \<Rightarrow> filtered c t
    | LocalAnswer rs \<Rightarrow> \<not> filtered c t \<and> local_for (service_of s) n t = Some rs
    | Poisoned \<Rightarrow> True
    | BlockedBy i \<Rightarrow> unsettled c (service_of s) n t \<and> blocked_at (service_of s) (en_pause_check env) n
    | FromCache rs stale ttl \<Rightarrow> unsettled c (service_of s) n t
        \<and> \<not> blocked_at (service_of s) (en_pause_check env) n \<and> ((n, t), rs) \<in> sv_known (service_of s)
    | ToUpstream \<Rightarrow> unsettled c (service_of s) n t \<and> \<not> blocked_at (service_of s) (en_pause_check env) n"
proof -
  let ?h = "sy_handler s"
  have known: "((n, t), rs) \<in> sv_known (service_of s)"
    if found: "check_cache env (qc_name q) (qc_qtype q) ?h = Some (rs, stale, ttl)" for rs stale ttl
  proof -
    obtain v where v: "en_cached env (dh_cache ?h) (n, t) = Some v" "fst v = rs"
      using found assms(3,4) by (cases "en_cached env (dh_cache ?h) (n, t)")
        (auto simp: check_cache_def Let_def split: if_splits)
    then have "((n, t), v) \<in> set (dh_cache ?h)"
      using assms(1) unfolding cache_contract_def by (blast dest: map_of_SomeD)
    then have "(\<lambda>(k, rs, _). (k, rs)) ((n, t), v) \<in> sv_known (service_of s)"
      unfolding service_of_def Let_def service.select_convs by (rule imageI)
    then show ?thesis using v(2) by (simp add: case_prod_unfold)
  qed
  have listed: "d \<in> sv_listed (service_of s) \<longleftrightarrow> check (dh_blocklist ?h) d \<noteq> None"
    "sv_pause (service_of s) = pause_of (dh_app_state ?h)" for d
    by (simp_all add: service_of_def Let_def)
  show ?thesis
  proof (cases "lk_poisoned (dh_app_state ?h)")
    case True
    with assms(2-4) show ?thesis
      by (auto simp: decide_def filtered_def local_for_service split: option.split)
  next
    case False
    with known assms(2-4) show ?thesis
      by (auto simp: decide_def filtered_def unsettled_def blocked_at_def local_for_service listed
          blocking_at_pause [OF False] split: option.split prod.split)
  qed
qed

text \<open>What the clients do not see: the statistics, the sinks and the spawned refreshes.\<close>

definition same_view :: "dns_handler \<Rightarrow> dns_handler \<Rightarrow> bool" where
  "same_view h h' \<longleftrightarrow> dh_sent h' = dh_sent h \<and> dh_local_records h' = dh_local_records h
     \<and> dh_blocklist h' = dh_blocklist h \<and> dh_cache h' = dh_cache h \<and> dh_app_state h' = dh_app_state h"

lemma same_view_effects [simp]: "same_view h (effects rq q d (counted rq' q' h))"
  "same_view h (counted rq' q' h)" "same_view h (h\<lparr>dh_stats := st\<rparr>)"
  by (simp_all add: same_view_def effects_def)

lemma view_rejected:
  "same_view (sy_handler s) h \<Longrightarrow>
   service_of (after_arrival rq (Inl p, h) s) = (service_of s)\<lparr>sv_failed := Suc (sv_failed (service_of s))\<rparr>"
  by (simp add: service_of_def after_arrival_def same_view_def Let_def)

lemma view_answered:
  "same_view (sy_handler s) h \<Longrightarrow>
   service_of (after_arrival rq (Inr (Inl x), answered resp e h) s) = answer resp (service_of s)"
  by (simp add: service_of_def after_arrival_def same_view_def answer_def Let_def)

lemma view_forwarded:
  "same_view (sy_handler s) h \<Longrightarrow>
   service_of (after_arrival rq (Inr (Inr q), h) s) =
     (service_of s)\<lparr>sv_waiting := add_mset (question_of (rq, q)) (sv_waiting (service_of s))\<rparr>"
  by (simp add: service_of_def after_arrival_def same_view_def Let_def)

lemma arrival_sim:
  assumes "env_contract env" "dh_config (sy_handler s) = c"
  shows "service_step c (service_of s) (service_of (after_arrival rq (handle_until_resolve env rq (sy_handler s)) s))"
proof (cases "rq_queries rq = []")
  case True
  then show ?thesis
    by (simp add: no_query_panics view_rejected service_step.reject)
next
  case False
  let ?q = "query_of env rq" and ?h = "sy_handler s"
  let ?n = "qc_name ?q" and ?t = "qc_qtype ?q"
  note guards = decide_guards [of env s c ?n ?q ?t, OF _ assms(2) refl refl]
  have contracts: "cache_contract env" using assms(1) by (simp add: env_contract_def)
  have header: "hd_id (answer_header env rq) = request_id rq" "hd_rcode (answer_header env rq) = NoError"
    using assms(1) answer_id by (simp_all add: env_contract_def header_contract_def answer_header_def request_id_def)
  show ?thesis
  proof (cases "decide env ?q ?h")
    case Filtered
    with guards [OF contracts] header show ?thesis
      unfolding handle_until_resolve_cases [OF False] Let_def carried_out_answered
      by (auto simp: view_rejected view_answered plain_answer_def response_id_def header_for_def
          intro: service_step.reject service_step.filter_out [where i = "request_id rq"])
  next
    case (LocalAnswer rs)
    with guards [OF contracts] header show ?thesis
      unfolding handle_until_resolve_cases [OF False] Let_def carried_out_answered
      by (auto simp: view_rejected view_answered plain_answer_def response_id_def header_for_def
          intro: service_step.reject service_step.serve_local [where i = "request_id rq"])
  next
    case Poisoned
    then show ?thesis
      unfolding handle_until_resolve_cases [OF False] Let_def
      by (simp add: view_rejected service_step.reject)
  next
    case (BlockedBy i)
    have "block_answer (request_id rq) ?t
        \<lparr>rs_header = header_for env rq ?q (BlockedBy i), rs_answers = answers_for env ?q (BlockedBy i)\<rparr>"
      using header by (cases ?t) (simp_all add: block_answer_def response_id_def header_for_def blocked_record_def Let_def)
    with BlockedBy guards [OF contracts] show ?thesis
      unfolding handle_until_resolve_cases [OF False] Let_def carried_out_answered
      by (auto simp: view_rejected view_answered simp del: answers_for.simps
          intro: service_step.reject service_step.block)
  next
    case (FromCache rs stale ttl)
    with guards [OF contracts] header show ?thesis
      unfolding handle_until_resolve_cases [OF False] Let_def carried_out_answered
      by (auto simp: view_rejected view_answered plain_answer_def response_id_def header_for_def
          intro: service_step.reject service_step.serve_known [where i = "request_id rq"])
  next
    case ToUpstream
    with guards [OF contracts] show ?thesis
      unfolding handle_until_resolve_cases [OF False] Let_def
      by (auto simp: view_forwarded question_of_def intro: service_step.forward)
  qed
qed

text \<open>A resolution learns what the upstream said, before anything is sent.\<close>

lemma resolve_and_cache_view:
  assumes "resolve_and_cache env n t h = (res, h')"
  shows "(case res of
      Inr (Inr (rs, up)) \<Rightarrow> (cf_disable_ipv6 (dh_config h) \<longrightarrow> no_aaaa rs)
        \<and> (\<exists>until. same_view (h\<lparr>dh_cache := ((n, t), rs, until) # dh_cache h\<rparr>) h')
    | _ \<Rightarrow> same_view h h')"
  using assms
  by (auto simp: resolve_and_cache_eq same_view_def cache_entry_def kept_records_def no_aaaa_def Let_def
      split: sum.splits prod.splits if_splits)

text \<open>The system with the records just learned in its cache.\<close>

definition taught :: "cache_key \<Rightarrow> dns_record list \<Rightarrow> instant \<times> instant \<Rightarrow> system \<Rightarrow> system" where
  "taught k rs until s =
     s\<lparr>sy_handler := (sy_handler s)\<lparr>dh_cache := (k, rs, until) # dh_cache (sy_handler s)\<rparr>\<rparr>"

lemma view_taught:
  "service_of (taught k rs until s) = (service_of s)\<lparr>sv_known := insert (k, rs) (sv_known (service_of s))\<rparr>"
  by (simp add: service_of_def taught_def Let_def)

lemma taught_step:
  "cf_disable_ipv6 c \<longrightarrow> no_aaaa rs \<Longrightarrow> service_step c (service_of s) (service_of (taught k rs until s))"
  by (cases k) (simp add: view_taught service_step.learn)

lemma question_removed:
  "i < length ps \<Longrightarrow> ps ! i = p \<Longrightarrow>
   mset (map question_of (remove_at i ps)) = mset (map question_of ps) - {#question_of p#}"
  using mset_remove_at [of i ps] by simp

lemma view_resolved:
  assumes "i < length (sy_pending s)" "sy_pending s ! i = (rq, q)" "same_view (sy_handler s) h"
  shows "service_of (after_resolution i (Inr x, answered resp e h) s) =
      answer resp (settle (question_of (rq, q)) (service_of s))"
    "service_of (after_resolution i (Inl p, h) s) =
      (settle (question_of (rq, q)) (service_of s))\<lparr>sv_failed := Suc (sv_failed (service_of s))\<rparr>"
  using assms(3) question_removed [OF assms(1,2)]
  by (simp_all add: service_of_def after_resolution_def same_view_def answer_def settle_def Let_def)

lemma after_resolution_taught:
  "after_resolution i r (taught k rs until s) = after_resolution i r s"
  by (simp add: after_resolution_def taught_def split: sum.split)

lemma question_waits:
  assumes "i < length (sy_pending s)" "sy_pending s ! i = (rq, q)"
  shows "(request_id rq, qc_name q, qc_qtype q) \<in># sv_waiting (service_of s)"
proof -
  have "question_of (rq, q) \<in> question_of ` set (sy_pending s)"
    using nth_mem [OF assms(1)] assms(2) by (metis imageI)
  then show ?thesis by (simp add: service_of_def question_of_def Let_def)
qed

lemma resolution_sim:
  assumes "env_contract env" "dh_config (sy_handler s) = c"
    and i: "i < length (sy_pending s)" "sy_pending s ! i = (rq, q)"
  shows "(service_step c)\<^sup>*\<^sup>* (service_of s)
    (service_of (after_resolution i (resolve_and_serve env rq q (sy_handler s)) s))"
proof -
  let ?h = "sy_handler s" and ?n = "qc_name q" and ?t = "qc_qtype q" and ?id = "request_id rq"
  obtain res h1 where r: "resolve_and_cache env ?n ?t ?h = (res, h1)" by fastforce
  note header = answer_id [OF assms(1), of rq]
  have code: "hd_rcode (answer_header env rq) = NoError"
    using assms(1) by (simp add: env_contract_def header_contract_def answer_header_def)
  note waits = question_waits [OF i]
  show ?thesis
  proof (cases "\<exists>rs up. res = Inr (Inr (rs, up))")
    case True
    then obtain rs up until where res: "res = Inr (Inr (rs, up))" "cf_disable_ipv6 c \<longrightarrow> no_aaaa rs"
      and view: "same_view (?h\<lparr>dh_cache := ((?n, ?t), rs, until) # dh_cache ?h\<rparr>) h1"
      using resolve_and_cache_view [OF r] assms(2) by auto
    let ?s = "taught (?n, ?t) rs until s"
    have s: "i < length (sy_pending ?s)" "sy_pending ?s ! i = (rq, q)" "same_view (sy_handler ?s) h1"
      using i view by (simp_all add: taught_def)
    have known: "((?n, ?t), rs) \<in> sv_known (service_of ?s)" "(?id, ?n, ?t) \<in># sv_waiting (service_of ?s)"
      using waits by (simp_all add: view_taught)
    have "service_step c (service_of ?s)
        (service_of (after_resolution i (resolve_and_serve env rq q ?h) ?s))"
    proof (cases "en_send_ok env")
      case True
      let ?resp = "\<lparr>rs_header = answer_header env rq, rs_answers = rs\<rparr>"
      have "plain_answer ?id rs ?resp" by (simp add: plain_answer_def response_id_def header code)
      from service_step.resolve [OF known(2,1) this] True show ?thesis
        by (simp add: resolve_and_serve_def st_bind_def r res serve_eqs view_resolved(1) [OF s] question_of_def)
    next
      case False
      from service_step.lose [OF known(2)] False show ?thesis
        by (simp add: resolve_and_serve_def st_bind_def r res serve_eqs view_resolved(2) [OF s] question_of_def)
    qed
    moreover have "service_step c (service_of s) (service_of ?s)" using res(2) by (rule taught_step)
    ultimately show ?thesis
      unfolding after_resolution_taught by (meson rtranclp.rtrancl_refl rtranclp.rtrancl_into_rtrancl)
  next
    case False
    then have view: "same_view ?h h1"
      using resolve_and_cache_view [OF r] by (auto split: sum.split_asm prod.split_asm)
    have "service_step c (service_of s) (service_of (after_resolution i (resolve_and_serve env rq q ?h) s))"
    proof (cases "(\<exists>e. res = Inr (Inl e)) \<and> en_send_ok env")
      case True
      let ?resp = "\<lparr>rs_header = (answer_header env rq)\<lparr>hd_rcode := ServFail\<rparr>, rs_answers = []\<rparr>"
      have "failure_answer ?id ?resp" by (simp add: failure_answer_def response_id_def header)
      from service_step.give_up [OF waits this] True show ?thesis
        by (auto simp: resolve_and_serve_def st_bind_def r serve_eqs view_resolved(1) [OF i view] question_of_def)
    next
      case no: False
      then have "\<exists>p. resolve_and_serve env rq q ?h = (Inl p, h1)"
        using False by (cases res) (auto simp: resolve_and_serve_def st_bind_def r serve_eqs split: sum.split)
      with service_step.lose [OF waits] show ?thesis
        by (auto simp: view_resolved(2) [OF i view] question_of_def)
    qed
    then show ?thesis by blast
  qed
qed

lemma view_same: "same_view (sy_handler s) h \<Longrightarrow> service_of (s\<lparr>sy_handler := h\<rparr>) = service_of s"
  by (simp add: service_of_def same_view_def Let_def)

lemma background_sim:
  assumes "dh_config (sy_handler s) = c"
  shows "(service_step c)\<^sup>*\<^sup>* (service_of s) (service_of (on_handler (background_refresh env) s))"
proof (cases "dh_spawned (sy_handler s)")
  case Nil
  then show ?thesis by (simp add: on_handler_def background_refresh_def)
next
  case (Cons k rest)
  obtain n t where k: "k = (n, t)" by fastforce
  let ?h = "(sy_handler s)\<lparr>dh_spawned := rest\<rparr>"
  obtain res h1 where r: "resolve_and_cache env n t ?h = (res, h1)" by fastforce
  have s': "on_handler (background_refresh env) s = s\<lparr>sy_handler := h1\<rparr>"
    by (simp add: on_handler_def background_refresh_def Cons k r)
  show ?thesis
  proof (cases "\<exists>rs up. res = Inr (Inr (rs, up))")
    case True
    then obtain rs up until where "res = Inr (Inr (rs, up))" and res: "cf_disable_ipv6 c \<longrightarrow> no_aaaa rs"
      and view: "same_view (?h\<lparr>dh_cache := ((n, t), rs, until) # dh_cache ?h\<rparr>) h1"
      using resolve_and_cache_view [OF r] assms by auto
    have "service_of (s\<lparr>sy_handler := h1\<rparr>) = service_of (taught (n, t) rs until s)"
      using view by (simp add: service_of_def taught_def same_view_def Let_def)
    then show ?thesis unfolding s' using taught_step [OF res, of s "(n, t)" until] by simp
  next
    case False
    then have "same_view ?h h1"
      using resolve_and_cache_view [OF r] by (auto split: sum.split_asm prod.split_asm)
    then have "same_view (sy_handler s) h1" by (simp add: same_view_def)
    then show ?thesis unfolding s' by (simp add: view_same)
  qed
qed

section \<open>The steps of the updater and of the API\<close>

lemma wake_sim:
  assumes "\<not> sy_fetching s" "updater_wake now p alive u (sy_refresh s) = Some (u', rx)"
  shows "service_step c (service_of s) (service_of (s\<lparr>sy_updater := Some u', sy_refresh := rx, sy_fetching := True\<rparr>))"
proof -
  have "ch_queue rx \<noteq> [] \<longrightarrow> sv_wanted (service_of s)"
    using updater_wake_result [OF assms(2)] by (auto simp: service_of_def Let_def)
  with assms(1) have "service_step c (service_of s)
      ((service_of s)\<lparr>sv_wanted := (ch_queue rx \<noteq> []), sv_fetching := True\<rparr>)"
    by (intro service_step.take_up) (simp_all add: service_of_def Let_def)
  then show ?thesis by (simp add: service_of_def Let_def)
qed

lemma update_sim:
  assumes "sy_fetching s" "completion_order c order"
  shows "service_step c (service_of s)
    (service_of (s\<lparr>sy_fetching := False, sy_handler := updater_swap uni get order c (sy_handler s)\<rparr>))"
proof -
  let ?m = "refresh uni get order c"
  have "{d. check ?m d \<noteq> None} =
      {d. d \<notin> set (cf_allowlist c) \<and> covered (\<Union>i < length (cf_blocklists c). parsed_domains uni get c i) d}"
    using standard_manager.rebuild_blocks_iff [OF assms(2)] by auto
  with assms(1) have "service_step c (service_of s)
      ((service_of s)\<lparr>sv_listed := {d. check ?m d \<noteq> None}, sv_fetching := False\<rparr>)"
    by (intro service_step.update) (simp_all add: service_of_def Let_def)
  then show ?thesis by (simp add: service_of_def Let_def)
qed

lemma pause_of_paused:
  "pause_of (snd (pause_blocking now d app)) \<in>
     {pause_of app} \<union> (if pause_of app = Broken then {} else {PausedUntil u | u. u < instant_limit} \<union> {Broken})"
proof (cases "lk_poisoned app")
  case True
  then show ?thesis by (simp add: pause_blocking_def rw_write_def)
qed (simp add: pause_blocking_healthy pause_of_def split: option.split)

lemma pause_of_resumed:
  "pause_of (snd (resume_blocking app)) \<in> {pause_of app} \<union> (if pause_of app = Broken then {} else {Running})"
proof (cases "lk_poisoned app")
  case True
  then show ?thesis by (simp add: resume_blocking_def rw_write_def)
qed (simp add: resume_blocking_healthy pause_of_def split: option.split)

lemma api_pause_engine:
  "snd (api_pause_blocking now m app) = snd (pause_blocking now (pause_duration m) app)"
  "snd (api_resume_blocking app) = snd (resume_blocking app)"
  by (simp_all add: api_pause_blocking_def api_resume_blocking_def split: prod.split sum.split)

lemma api_handle_engine:
  "\<exists>now d. as_engine (snd (api_handle ae body e a)) \<in>
     {as_engine a, snd (pause_blocking now d (as_engine a)), snd (resume_blocking (as_engine a))}"
  by (cases e) (auto simp: case_prod_unfold api_pause_engine split: option.split)

lemma api_serve_engine:
  "\<exists>now d. as_engine (snd (api_serve ae hq a)) \<in>
     {as_engine a, snd (pause_blocking now d (as_engine a)), snd (resume_blocking (as_engine a))}"
  using api_handle_engine [of ae "hq_body hq" _ a] by (auto simp: api_serve_def split: routed.split)

lemma pause_sim:
  assumes "app \<in> {dh_app_state (sy_handler s), snd (pause_blocking now d (dh_app_state (sy_handler s))),
      snd (resume_blocking (dh_app_state (sy_handler s)))}"
  shows "(service_step c)\<^sup>*\<^sup>* (service_of s) ((service_of s)\<lparr>sv_pause := pause_of app\<rparr>)"
proof -
  let ?p = "pause_of (dh_app_state (sy_handler s))"
  have now: "sv_pause (service_of s) = ?p" by (simp add: service_of_def Let_def)
  have same: "(service_of s)\<lparr>sv_pause := ?p\<rparr> = service_of s" by (simp add: service_of_def Let_def)
  consider "pause_of app = ?p" | u where "?p \<noteq> Broken" "pause_of app = PausedUntil u" "u < instant_limit"
    | "?p \<noteq> Broken" "pause_of app = Broken" | "?p \<noteq> Broken" "pause_of app = Running"
    using assms pause_of_paused [of now d "dh_app_state (sy_handler s)"]
      pause_of_resumed [of "dh_app_state (sy_handler s)"] by (auto split: if_split_asm)
  then show ?thesis
    using service_step.intros(11-13) [of "service_of s"] unfolding now
    by cases (auto simp: same simp del: pause_of_broken)
qed

lemma api_sim:
  "(service_step c)\<^sup>*\<^sup>* (service_of s) (service_of (api_update (snd (api_serve ae hq (api_view c s))) s))"
proof -
  let ?a = "snd (api_serve ae hq (api_view c s))"
  let ?v = "(service_of s)\<lparr>sv_pause := pause_of (as_engine ?a)\<rparr>"
  have to: "service_of (api_update ?a s) = ?v\<lparr>sv_wanted := (ch_queue (as_refresh_sender ?a) \<noteq> [])\<rparr>"
    by (simp add: service_of_def api_update_def Let_def)
  have "(service_step c)\<^sup>*\<^sup>* (service_of s) ?v"
    using api_serve_engine [of ae hq "api_view c s"] pause_sim [of "as_engine ?a" s]
    unfolding api_view_def api_state.select_convs by blast
  moreover have "(service_step c)\<^sup>*\<^sup>* ?v (?v\<lparr>sv_wanted := (ch_queue (as_refresh_sender ?a) \<noteq> [])\<rparr>)"
  proof (cases "ch_queue (as_refresh_sender ?a) = [] \<longleftrightarrow> ch_queue (sy_refresh s) = []")
    case True
    then have "?v\<lparr>sv_wanted := (ch_queue (as_refresh_sender ?a) \<noteq> [])\<rparr> = ?v"
      by (simp add: service_of_def Let_def)
    then show ?thesis by simp
  next
    case False
    then have "ch_queue (as_refresh_sender ?a) \<noteq> []"
      using api_serve_sender [of ae hq "api_view c s"]
      by (auto simp: api_view_def trigger_refresh_def try_send_def split: if_splits)
    then show ?thesis using service_step.want [of c ?v] by (simp add: r_into_rtranclp)
  qed
  ultimately show ?thesis unfolding to by (rule rtranclp_trans)
qed

section \<open>The refinement\<close>

lemma task_sim:
  assumes "task_step c s s'" "system_inv c s"
  shows "(service_step c)\<^sup>*\<^sup>* (service_of s) (service_of s')"
proof -
  have c: "dh_config (sy_handler s) = c" using assms(2) by (simp add: system_inv_def handler_inv_def)
  from assms(1) show ?thesis
  proof cases
    case (arrive env rq)
    then show ?thesis using arrival_sim [OF _ c] by blast
  next
    case (complete env i rq q)
    then show ?thesis using resolution_sim [OF _ c] by blast
  next
    case (background env)
    then show ?thesis using background_sim [OF c] by blast
  next
    case (wake u now prefer_tick u' rx)
    then show ?thesis using wake_sim by blast
  next
    case (update order uni get)
    then show ?thesis using update_sim by blast
  next
    case (sink show_ip show_rt j)
    then show ?thesis by (simp add: on_handler_def view_same same_view_def del: logger_step.simps)
  next
    case (writer j fails show_ip show_rt clk)
    then show ?thesis by (simp add: on_handler_def view_same same_view_def)
  qed
qed

interpretation service: simulation "sys_step c" "service_step c" service_of "system_inv c" for c
proof unfold_locales
  fix s s'
  assume inv: "system_inv c s" and step: "sys_step c s s'"
  from step show "(service_step c)\<^sup>*\<^sup>* (service_of s) (service_of s')"
    by cases (use inv task_sim api_sim in blast)+
  show "system_inv c s'" using sys_step_inv [OF step inv] .
qed

section \<open>Where answers come from\<close>

text \<open>
  The records of every response are none, the configuration's, the unspecified address, or such as
  the upstreams once gave.
\<close>

definition sourced :: "service \<Rightarrow> bool" where
  "sourced v \<longleftrightarrow> (\<forall>resp \<in> set (sv_answered v). let rs = rs_answers resp in
     rs = [] \<or> map rec_data rs \<in> {[RD_A 0], [RD_AAAA 0]} \<or> (\<exists>n. sv_local v n = Some rs)
     \<or> (\<exists>k. (k, rs) \<in> sv_known v))"

lemma sourced_frame:
  "sv_answered v' = sv_answered v \<Longrightarrow> sv_local v' = sv_local v \<Longrightarrow> sv_known v \<subseteq> sv_known v' \<Longrightarrow>
   sourced v \<Longrightarrow> sourced v'"
  unfolding sourced_def Let_def by (simp only:) blast

lemma sourced_answer:
  "sourced v \<Longrightarrow> rs_answers resp = [] \<or> map rec_data (rs_answers resp) \<in> {[RD_A 0], [RD_AAAA 0]}
     \<or> (\<exists>n. sv_local v n = Some (rs_answers resp)) \<or> (\<exists>k. (k, rs_answers resp) \<in> sv_known v) \<Longrightarrow>
   sourced (answer resp v)"
  by (auto simp: sourced_def answer_def Let_def)

lemma sourced_settle: "sourced v \<Longrightarrow> sourced (settle q v)"
  by (rule sourced_frame) (simp_all add: settle_def)

lemma sourced_step:
  assumes "sourced v" "service_step c v v'"
  shows "sourced v'"
  using assms(2,1)
proof (induction rule: service_step.induct)
  case (serve_local t v n rs i resp)
  then show ?case
    by (intro sourced_answer) (auto simp: plain_answer_def local_for_def split: option.splits if_splits)
next
  case (block v n t now i resp)
  then show ?case by (intro sourced_answer) (auto simp: block_answer_def split: rtype.splits)
next
  case (serve_known v n t now rs i resp)
  then show ?case by (intro sourced_answer) (auto simp: plain_answer_def)
next
  case (resolve i n t v rs resp)
  then show ?case by (intro sourced_answer sourced_settle) (auto simp: plain_answer_def settle_def)
next
  case (give_up i n t v resp)
  then show ?case by (intro sourced_answer sourced_settle) (auto simp: failure_answer_def)
next
  case (lose i n t v)
  then show ?case by (intro sourced_frame [OF _ _ _ sourced_settle [OF lose.prems]]) (auto simp: settle_def)
next
  case (filter_out t i resp v)
  then show ?case by (intro sourced_answer) (auto simp: plain_answer_def)
qed (erule sourced_frame [rotated -1]; auto)+

end
