(* ===== verification/Spec2Isabelle.thy ===== *)
theory Spec2Isabelle
  imports Service_Log Service_Spec
begin

text \<open>
  A verification of ad-nope, a DNS server that blocks advertising domains (Rust, under \<open>src/\<close>).

  The program. A client's query enters \<open>DnsHandler::handle_request\<close> (\<open>src/server\<close>), which answers it
  from the first of: the IPv6 filter, the local records, the blocklist (unless blocking is paused),
  the cache, and the upstream resolvers. The blocklist is a matcher (\<open>src/engine\<close>) that an updater
  task (\<open>src/main.rs\<close>) rebuilds from downloaded lists, periodically or when the API asks. Every
  answer is counted (\<open>src/stats.rs\<close>) and logged (\<open>src/logger\<close>) to sinks with a task and a bounded
  channel each: the console, a ring buffer, or the database (\<open>src/db.rs\<close>). The API (\<open>src/api\<close>) reads
  statistics and logs from the collector and the ring buffer, or from the database, and pauses
  blocking. \<open>src/config.rs\<close> is the configuration, \<open>src/init.rs\<close> and \<open>src/main.rs\<close> the start-up.

  The theories, each importing the ones it calls:
    \<open>Rust_Prelude\<close>, \<open>Rust_Strings\<close>, \<open>Rust_Collections\<close>: machine integers and casts, panics, the monad of
      state and panics, clocks, the lock with poisoning; byte strings and their methods; maps of
      counters, stable sorting, top-k.
    \<open>Tokio_Channel\<close>, \<open>Tokio_Timer\<close>: the runtime's bounded channel (the interface is the locale
      \<open>fifo_channel\<close>) and periodic timer.
    \<open>Dns_Types\<close>: records, requests, responses, log entries (\<open>src/logger/types.rs\<close>, \<open>src/server/types.rs\<close>).
    \<open>Config_Model\<close>: \<open>src/config.rs\<close>; the \<open>de_\<close> and \<open>ser_\<close> functions are its serialisation attributes.
    \<open>App_State\<close>: \<open>src/engine/state.rs\<close>; \<open>Domain_Matcher\<close>: \<open>src/engine/domain_matcher.rs\<close>;
    \<open>Blocklist_Manager\<close>: \<open>src/engine/blocklist_manager.rs\<close>. The traits of \<open>src/engine/traits.rs\<close> are the
      locales \<open>blocklist_matcher\<close> and \<open>blocklist_manager\<close>.
    \<open>Stats_Model\<close>: \<open>src/stats.rs\<close>.
    \<open>Resolver_Model\<close>: the strategies of \<open>src/resolver\<close> (trait \<open>DnsResolver\<close>: locale \<open>dns_resolver\<close>);
    \<open>Upstream_Setup\<close>: \<open>src/resolver/mod.rs\<close>, which builds them.
    \<open>Db_Model\<close>: \<open>src/db.rs\<close>. \<open>Log_Sinks\<close>: the sinks of \<open>src/logger\<close> (trait \<open>QueryLogSink\<close>: the locales
      \<open>query_log_sink\<close>, \<open>lossless_sink\<close>, \<open>bounded_sink\<close>). \<open>Query_Logger\<close>: \<open>src/logger/mod.rs\<close>.
    \<open>Dns_Handler\<close>: \<open>src/server/dns_request_handler.rs\<close>, method by method. \<open>Handler_Spec\<close>: its abstract
      specification, one decision for each query and what each decision leads to, and the equations
      by which the methods implement it. \<open>Handler_Properties\<close>: the properties of the handler.
    \<open>Api_Model\<close>: the data sources and handlers of \<open>src/api\<close> (trait \<open>ApiDataSource\<close>: locale
      \<open>api_data_source\<close>); \<open>Api_Server\<close>: the routes of \<open>src/api/mod.rs\<close> and the dispatch of a request.
    \<open>Ui_Build\<close>: \<open>build.rs\<close>, which puts the files of the user interface where the server finds them.
    \<open>Main_Model\<close>: \<open>src/init.rs\<close>, \<open>src/main.rs\<close>: start-up, updater, the server's sockets.
    \<open>System_Model\<close>: all tasks and the requests to the API as one step relation on the shared state, its
      reachable states and their invariant.
    \<open>Service_Spec\<close>: the abstract specification of the service, what clients and operator see, and the
      simulation (the locale \<open>simulation\<close>) by which the system refines it.
    \<open>Service_Log\<close>: the log entries followed through the running service to the ring buffer and the table
      (the locale \<open>task_observer\<close>).
  This theory has the properties that span the components.

  State and operations. Each struct is a record, its methods functions that return the changed
  state: \<open>AppState\<close> is \<open>app_state\<close> (a lock with its poisoned flag), \<open>HashedMatcher\<close> \<open>hashed_matcher\<close>,
  \<open>StatsCollector\<close> \<open>stats\<close>, \<open>DbClient\<close> and \<open>LogWriter\<close> \<open>db\<close>, \<open>QueryLogger\<close> a list of \<open>sink_task\<close>,
  \<open>DnsHandler\<close> \<open>dns_handler\<close>, which also keeps what is observable: the responses sent and the spawned
  refreshes. A handler's method is a computation of state and panic, an expectation that fails is a
  value of \<open>panic\<close>. The clock readings, replies and send results of one request are the record
  \<open>handler_env\<close>; those of the start-up \<open>boot_env\<close>.

  What the lemmas show. Data: parsing, sorting, serialisation and storage are in normal form,
  deterministic, and inverse to each other where they should be. Components: every operation on
  every branch, with errors and panics; the matcher and the strategies equal references that are
  not loops; the channel, sinks, resolvers, matcher and data sources satisfy the contracts their
  clients are proved from. Handler: \<open>handle_request\<close> refines the decision. System: the
  running service refines an abstract one; an invariant of every reachable state, from which
  conservation of requests, the absence of IPv6 answers, agreement of the counters, bounds and
  progress follow; what the API shows is what was answered, and what it is asked for (a pause, a
  refresh) reaches the queries. A number of theorems state what goes wrong where arithmetic wraps, a lock is
  poisoned or a task dies.

  Conventions. Arithmetic is that of a release build (it wraps; the container image is built so).
  Strings are the bytes of their UTF-8 form. Instants and durations are nanoseconds as naturals;
  adding beyond \<open>2 ^ 63\<close> seconds panics as in the library. A method's part before it waits for an
  upstream is one step and the part after it another, and an update of the blocklist is two steps,
  the updater's wake-up and, after the download, the swap of the matcher; the atomic counters and the
  replaced matcher are cells. Concurrent calls of one resolver advance its counter in the order of the steps.
  Loops over lists are structural recursions and the suffix search ends because a suffix is shorter,
  so nothing needs fuel; endless loops (sink tasks, updater, statistics task) are given by their turns.

  Parameters, for code that is not in the repository: the HTTP client, URL, name and address
  parsing, the texts of addresses and types, the iteration order of concurrent maps and the scan
  order of tables (permutations), the order in which concurrent downloads and lookups complete
  (permutations), the formatting of ratios, the HTML minifier, the Unicode case tables, the replies of lookups, which
  statements the database refuses. Three hypotheses are named: \<open>cache_contract\<close>, the cache returns what
  was last stored under the key or nothing (eviction), \<open>header_contract\<close>, a response header made
  from a request keeps its identifier and has no error code, and \<open>router_contract\<close>, a path of the
  table goes to its handler and any other to the fallback. \<open>text_roundtrip\<close> says that the parsers
  read what the printers write.

  Not modelled. The sockets' traffic and the stop signal: requests and replies are the arguments and
  results of the handlers. The pages of the user interface and the tests. The messages traced for the
  operator, other than the statistics dump and the console sink's lines. The limit on concurrent downloads: it
  changes only the completion order, except that a limit of zero never downloads anything, so the
  completion order assumes a positive limit. Preemption inside a step between two atomic operations.
\<close>

section \<open>Properties of the running service\<close>

lemma sample_defaults:
  "cf_local_records config_default = []" "cf_allowlist config_default = []"
  "length (cf_blocklists config_default) = 1"
  by (simp_all add: config_default_def default_blocklists_def)

lemma sample_parse: "parse_line (\<lambda>s. s) ''ads'' = Some ''ads''"
  by code_simp

lemma sample_listed:
  "check (refresh (\<lambda>s. s) (\<lambda>_. Inr [Inr ''ads'']) [0] (config_default\<lparr>cf_disable_ipv6 := d\<rparr>)) ''ads'' = Some 0"
  "check (refresh (\<lambda>s. s) (\<lambda>_. Inr [Inr ''ads'']) [0] config_default) ''ads'' = Some 0"
  by (simp_all add: refresh_def check_def suffix_match_first_listed ancestors_def task_def sample_parse
      get_blocklists_sorted_def fetch_and_parse_def source_id_of_def config_defaults default_blocklists_def)

lemma sample_unlisted: "check (refresh uni (\<lambda>_. Inr []) [0] config_default) ''x'' = None"
  by (simp add: refresh_def check_def suffix_match_first_listed ancestors_def task_def
      get_blocklists_sorted_def fetch_and_parse_def config_defaults default_blocklists_def)

text \<open>A service without a database that has answered one query, for a listed name.\<close>

definition sample_answered :: "dns_handler \<Rightarrow> system" where
  "sample_answered h =
     (let s = spawn_background_tasks 0 free_port config_default InMemorySource h;
          rq = sample_request ''ADS'' RT_A
      in after_arrival rq (handle_until_resolve (sample_env 5 (Inr [])) rq (sy_handler s)) s)"

lemma sample_answered:
  "\<exists>h. boot (sample_boot config_default [Inr ''ads'']) = Inr (config_default, InMemorySource, h)
     \<and> sys_reachable config_default (spawn_background_tasks 0 free_port config_default InMemorySource h) (sample_answered h)
     \<and> length (dh_sent (sy_handler (sample_answered h))) = 1
     \<and> sy_requests (sample_answered h) = [sample_request ''ADS'' RT_A]"
proof -
  let ?c = config_default and ?b = "sample_boot config_default [Inr ''ads'']"
  let ?env = "sample_env 5 (Inr [])" and ?rq = "sample_request ''ADS'' RT_A"
  obtain source h where b: "boot ?b = Inr (?c, source, h)" using sample_boots by blast
  have "init_sqlite_db ?b ?c = None"
    by (simp add: init_sqlite_db_def db_client_new_def open_connection_def sample_boot_def no_database_def)
  then have memory: "source = InMemorySource"
    using booted_logger [OF b] by (auto simp: init_pipeline_def create_memory_source_def)
  let ?init = "spawn_background_tasks 0 free_port ?c InMemorySource h"
  have "sys_reachable ?c ?init (sample_answered h)"
    unfolding sample_answered_def Let_def
    by (intro sys_reachable.step [OF sys_reachable.start] sys_step.task task_step.arrive) (simp add: env_contract_def)
  moreover have "decide ?env (query_of ?env ?rq) h = BlockedBy 0"
    by (simp add: decide_def query_of_def sample_name boot_fields [OF b] local_answer_def
        sample_listed sample_defaults)
  then have "length (dh_sent (sy_handler (sample_answered h))) = 1" "sy_requests (sample_answered h) = [?rq]"
    by (simp_all add: sample_answered_def after_arrival_def handle_until_resolve_cases boot_fields [OF b] Let_def)
  ultimately show ?thesis using b memory by blast
qed

lemma sample_logging: "lg_enable (cf_logging config_default)"
  by (simp add: config_default_def logging_config_default_def default_log_enable_def)

lemma sample_recorded:
  assumes "list_all2 (recorded {sample_request ''ADS'' RT_A}) log resps" "length resps = 1"
  obtains e where "log = [e]" "le_domain e = ''ads''" "le_client_ip e = rq_src (sample_request ''ADS'' RT_A)"
proof -
  have "length log = 1" using list_all2_lengthD [OF assms(1)] assms(2) by simp
  then obtain e where e: "log = [e]" by (auto simp: length_Suc_conv)
  have "\<exists>resp. recorded {sample_request ''ADS'' RT_A} e resp"
    using assms(1) unfolding e by (auto simp: list_all2_Cons1)
  then have "le_domain e = ''ads''" "le_client_ip e = rq_src (sample_request ''ADS'' RT_A)"
    by (auto simp: recorded_def tells_def sample_name)
  with e that show ?thesis by blast
qed

lemma sample_router: "router_contract (ap_router (sample_api_env 0))"
  by (simp add: sample_api_env_def plain_router_contract)

text \<open>
  C2. The running service refines its specification. Its start-up is the specification's start: nothing
  answered, waiting, failed or known, blocking active; and what is seen of any reachable state is
  reached from there by steps of the specification, which for each query prescribes the order of
  filter, local records, blocklist, known answers and forwarding, and for each waiting query exactly
  one answer, with its own identifier, or a failure.
\<close>

theorem service_refines_spec:
  assumes "boot b = Inr (c, source, h)"
    and "sys_reachable c (spawn_background_tasks now bind c source h) s"
  shows "let v = service_of (spawn_background_tasks now bind c source h) in
    sv_answered v = [] \<and> sv_waiting v = {#} \<and> sv_failed v = 0 \<and> sv_known v = {}
    \<and> sv_pause v = Running \<and> \<not> sv_wanted v \<and> \<not> sv_fetching v
    \<and> sv_listed v = {d. check (refresh (be_uni b) (be_get b) (be_order b) c) d \<noteq> None}
    \<and> sv_local v = insert_local (be_parse_name b) (cc_min_ttl (cf_cache c)) (cf_local_records c) Map.empty
    \<and> (service_step c)\<^sup>*\<^sup>* v (service_of s)"
proof -
  have "(service_step c)\<^sup>*\<^sup>* (service_of (spawn_background_tasks now bind c source h)) (service_of s)"
    using service.run_sim boot_inv [OF assms(1)] assms(2) unfolding reachable_rtranclp by blast
  moreover have "sy_panics (spawn_background_tasks now bind c source h) = []"
    "\<not> sy_fetching (spawn_background_tasks now bind c source h)"
    "ch_queue (sy_refresh (spawn_background_tasks now bind c source h)) = []"
    by (simp_all add: spawn_background_tasks_def close_channel_def channel_new_def Let_def split: sum.split)
  ultimately show ?thesis
    unfolding Let_def
    by (simp add: boot_fields [OF assms(1)] service_of_def pause_of_def app_state_new_def rw_new_def)
qed

theorem service_refines_spec_witness:
  "\<exists>h. boot (sample_boot config_default [Inr ''ads'']) = Inr (config_default, InMemorySource, h)
     \<and> (let v = service_of (spawn_background_tasks 0 free_port config_default InMemorySource h);
            v' = service_of (sample_answered h)
        in (service_step config_default)\<^sup>*\<^sup>* v v' \<and> sv_answered v = [] \<and> length (sv_answered v') = 1)"
proof -
  obtain h where b: "boot (sample_boot config_default [Inr ''ads'']) = Inr (config_default, InMemorySource, h)"
    and r: "sys_reachable config_default (spawn_background_tasks 0 free_port config_default InMemorySource h) (sample_answered h)"
    and sent: "length (dh_sent (sy_handler (sample_answered h))) = 1"
    using sample_answered by blast
  have "length (sv_answered (service_of (sample_answered h))) = 1"
    using sent by (simp add: service_of_def Let_def)
  with service_refines_spec [OF b r] b show ?thesis unfolding Let_def by blast
qed



text \<open>
  C6. No request is lost or answered twice. In every state the service can reach from its start-up,
  under any interleaving of requests, upstream replies, refreshes, updates, pauses and log
  deliveries, the requests received are exactly those answered, those waiting for an upstream and
  those whose task panicked: as multisets of identifiers, so that each response carries the
  identifier of a request of its own; and the query counter shows their number.
\<close>

theorem requests_conserved:
  assumes "boot b = Inr (c, source, h)"
    and "sys_reachable c (spawn_background_tasks now bind c source h) s"
  shows "mset (map response_id (dh_sent (sy_handler s))) + mset (map (request_id \<circ> fst) (sy_pending s))
      + mset (map (request_id \<circ> fst) (sy_panics s)) = mset (map request_id (sy_requests s))
    \<and> length (dh_sent (sy_handler s)) + length (sy_pending s) + length (sy_panics s) = sy_received s
    \<and> st_total_queries (dh_stats (sy_handler s)) = of_nat (sy_received s)"
  using system_count [OF reachable_inv [OF assms(2) boot_inv [OF assms(1)]]]
    reachable_inv [OF assms(2) boot_inv [OF assms(1)]] unfolding system_inv_def by blast

theorem requests_conserved_witness:
  "\<exists>source h. boot (sample_boot config_default []) = Inr (config_default, source, h)
     \<and> st_total_queries (dh_stats (sy_handler (spawn_background_tasks 0 free_port config_default source h))) = 0"
proof -
  obtain source h where b: "boot (sample_boot config_default []) = Inr (config_default, source, h)"
    using sample_boots by blast
  from requests_conserved [OF b sys_reachable.start] b show ?thesis
    by (intro exI [of _ source] exI [of _ h]) simp
qed

text \<open>
  C11. With IPv6 disabled no client ever gets an IPv6 address: in every reachable state, no response
  sent, whether local, blocked, cached or forwarded, carries an AAAA record; this needs of the cache
  library only that it returns what was last stored.
\<close>

theorem ipv6_never_served:
  assumes "boot b = Inr (c, source, h)" "cf_disable_ipv6 c"
    and "sys_reachable c (spawn_background_tasks now bind c source h) s"
    and "resp \<in> set (dh_sent (sy_handler s))" "r \<in> set (rs_answers resp)"
  shows "record_type r \<noteq> RT_AAAA"
  using reachable_inv [OF assms(3) boot_inv [OF assms(1)]] assms(2,4,5)
  by (auto simp: system_inv_def handler_inv_def ipv6_free_def no_aaaa_def)

theorem ipv6_never_served_witness:
  "let c = config_default\<lparr>cf_disable_ipv6 := True\<rparr> in
   \<exists>source h s resp r. boot (sample_boot c [Inr ''ads'']) = Inr (c, source, h)
     \<and> sys_reachable c (spawn_background_tasks 0 free_port c source h) s
     \<and> resp \<in> set (dh_sent (sy_handler s)) \<and> r \<in> set (rs_answers resp) \<and> record_type r \<noteq> RT_AAAA"
proof -
  let ?c = "config_default\<lparr>cf_disable_ipv6 := True\<rparr>"
  let ?env = "sample_env 5 (Inr [])" and ?rq = "sample_request ''ADS'' RT_A"
  obtain source h where b: "boot (sample_boot ?c [Inr ''ads'']) = Inr (?c, source, h)"
    using sample_boots by blast
  let ?init = "spawn_background_tasks 0 free_port ?c source h"
  let ?s = "after_arrival ?rq (handle_until_resolve ?env ?rq (sy_handler ?init)) ?init"
  have r: "sys_reachable ?c ?init ?s"
    by (intro sys_reachable.step [OF sys_reachable.start] sys_step.task task_step.arrive) (simp add: env_contract_def)
  have "decide ?env (query_of ?env ?rq) h = BlockedBy 0"
    by (simp add: decide_def query_of_def sample_name boot_fields [OF b] local_answer_def
        sample_listed sample_defaults)
  then have sent: "dh_sent (sy_handler ?s) =
      [\<lparr>rs_header = answer_header ?env ?rq, rs_answers = [from_rdata ''ads'' 60 (RD_A 0)]\<rparr>]"
    by (simp add: after_arrival_def handle_until_resolve_cases boot_fields [OF b] header_for_def
        query_of_def sample_name blocked_record_def Let_def)
  have "cf_disable_ipv6 ?c" by simp
  from ipv6_never_served [OF b this r] sent b r show ?thesis
    unfolding Let_def by (metis list.set_intros(1) response.select_convs(2))
qed

text \<open>
  Memory for logging is bounded and the counters agree: in every reachable state no sink's channel
  holds more than a thousand entries, at most one refresh request waits, and the number of blocked
  queries is the sum of the counts of the blocklists.
\<close>

theorem service_bounded:
  assumes "boot b = Inr (c, source, h)"
    and "sys_reachable c (spawn_background_tasks now bind c source h) s"
  shows "list_all (\<lambda>t. length (ch_queue (tk_channel t)) \<le> 1000) (dh_logger (sy_handler s))
    \<and> length (ch_queue (sy_refresh s)) \<le> 1
    \<and> st_blocked_queries (dh_stats (sy_handler s)) = sum_list (st_blocked_by_source (dh_stats (sy_handler s)))"
  using reachable_inv [OF assms(2) boot_inv [OF assms(1)]]
  by (simp add: system_inv_def handler_inv_def logger_bounded_def stats_wf_def list_all_iff)

theorem service_bounded_witness:
  "\<exists>source h. boot (sample_boot config_default []) = Inr (config_default, source, h)
     \<and> list_all (\<lambda>t. length (ch_queue (tk_channel t)) \<le> 1000) (dh_logger h)"
proof -
  obtain source h where b: "boot (sample_boot config_default []) = Inr (config_default, source, h)"
    using sample_boots by blast
  from service_bounded [OF b sys_reachable.start, of 0] b show ?thesis
    by (intro exI [of _ source] exI [of _ h]) simp
qed

lemma drain:
  assumes "env_contract env" "en_send_ok env" "\<forall>rs. fits_clock c (en_insert env) rs"
  shows "system_inv c s \<Longrightarrow> completes_all (dh_resolver (sy_handler s)) (en_lookup env) \<Longrightarrow>
    \<exists>s'. sys_reachable c s s' \<and> sy_pending s' = [] \<and> sy_panics s' = sy_panics s
      \<and> length (dh_sent (sy_handler s')) = length (dh_sent (sy_handler s)) + length (sy_pending s)"
proof (induction "length (sy_pending s)" arbitrary: s)
  case 0
  then show ?case by (intro exI [of _ s]) (simp add: sys_reachable.start)
next
  case (Suc n)
  obtain rq q where "sy_pending s ! 0 = (rq, q)" by fastforce
  with Suc.hyps(2) Suc.prems assms obtain s1 where s1: "sys_step c s s1"
    "sy_pending s1 = remove_at 0 (sy_pending s)" "sy_panics s1 = sy_panics s"
    "length (dh_sent (sy_handler s1)) = length (dh_sent (sy_handler s)) + 1"
    "completes_all (dh_resolver (sy_handler s1)) = completes_all (dh_resolver (sy_handler s))"
    by (metis complete_pending zero_less_Suc)
  have left: "length (sy_pending s) = Suc (length (sy_pending s1))"
    using s1(2) length_remove_at [of 0 "sy_pending s"] Suc.hyps(2) by fastforce
  have "system_inv c s1" using sys_step_inv [OF s1(1) Suc.prems(1)] .
  then have "\<exists>s2. sys_reachable c s1 s2 \<and> sy_pending s2 = [] \<and> sy_panics s2 = sy_panics s1
      \<and> length (dh_sent (sy_handler s2)) = length (dh_sent (sy_handler s1)) + length (sy_pending s1)"
    using Suc.hyps(2) left s1(5) Suc.prems(2) by (intro Suc.hyps(1)) simp_all
  then obtain s2 where s2: "sys_reachable c s1 s2" "sy_pending s2 = []"
    "sy_panics s2 = sy_panics s1"
    "length (dh_sent (sy_handler s2)) = length (dh_sent (sy_handler s1)) + length (sy_pending s1)"
    by blast
  have "sys_reachable c s s2"
    by (rule sys_reachable_trans [OF s2(1)]) (rule sys_reachable.step [OF sys_reachable.start s1(1)])
  with s1 s2 left show ?case by (intro exI [of _ s2]) simp
qed

text \<open>
  C9. No query waits in vain: from every reachable state, whatever the upstreams reply from then on (each
  of them a fixed reply to each question), the service can answer all the queries that wait, each
  with one response and without a panic, if the clock has room and the sockets accept them.
\<close>

theorem pending_queries_drain:
  assumes "boot b = Inr (c, source, h)"
    and "sys_reachable c (spawn_background_tasks now bind c source h) s"
    and "env_contract env" "completes_all (dh_resolver (sy_handler s)) (en_lookup env)"
    and "en_send_ok env" "\<forall>rs. fits_clock c (en_insert env) rs"
  shows "\<exists>s'. sys_reachable c s s' \<and> sy_pending s' = [] \<and> sy_panics s' = sy_panics s
    \<and> length (dh_sent (sy_handler s')) = length (dh_sent (sy_handler s)) + length (sy_pending s)"
  using drain [OF assms(3,5,6) reachable_inv [OF assms(2) boot_inv [OF assms(1)]] assms(4)] .

theorem pending_queries_drain_witness:
  "\<exists>source h s s'. boot (sample_boot config_default []) = Inr (config_default, source, h)
     \<and> sys_reachable config_default (spawn_background_tasks 0 free_port config_default source h) s
     \<and> length (sy_pending s) = 1 \<and> sys_reachable config_default s s' \<and> sy_pending s' = []
     \<and> length (dh_sent (sy_handler s')) = length (dh_sent (sy_handler s)) + 1"
proof -
  let ?c = config_default
  obtain source h where b: "boot (sample_boot ?c []) = Inr (?c, source, h)"
    using sample_boots by blast
  let ?init = "spawn_background_tasks 0 free_port ?c source h" and ?rq = "sample_request ''x'' RT_A"
  let ?env = "(sample_env 0 (Inr []))\<lparr>en_lookup :=
    (en_lookup (sample_env 0 (Inr [])))\<lparr>ev_order := [0..<length (upstreams_of (dh_resolver h))]\<rparr>\<rparr>"
  let ?s = "after_arrival ?rq (handle_until_resolve ?env ?rq (sy_handler ?init)) ?init"
  let ?q = "query_of ?env ?rq"
  have env: "env_contract ?env" "en_send_ok ?env" "\<forall>rs. fits_clock ?c (en_insert ?env) rs"
    using sample_fits [of 0] by (simp_all add: env_contract_def cache_contract_def header_contract_def
        sample_env_def ns_per_sec_def)
  have r: "sys_reachable ?c ?init ?s"
    by (intro sys_reachable.step [OF sys_reachable.start] sys_step.task task_step.arrive env)
  have "decide ?env ?q h = ToUpstream"
    by (simp add: decide_def query_of_def sample_name boot_fields [OF b] local_answer_def
        sample_unlisted sample_defaults check_cache_def)
  then have s: "sy_pending ?s = [(?rq, ?q)]" "dh_resolver (sy_handler ?s) = dh_resolver h"
    by (simp_all add: after_arrival_def handle_until_resolve_cases Let_def)
  have "completes_all (dh_resolver (sy_handler ?s)) (en_lookup ?env)"
    unfolding s(2) by (simp add: completes_all_def)
  from pending_queries_drain [OF b r env(1) this env(2,3)]
  obtain s' where "sys_reachable ?c ?s s'" "sy_pending s' = []"
    "length (dh_sent (sy_handler s')) = length (dh_sent (sy_handler ?s)) + 1"
    unfolding s(1) by auto
  with b r s(1) show ?thesis by (metis length_Cons list.size(3) One_nat_def)
qed

text \<open>
  C5. From a line of a blocklist to the answer of a query: on a freshly started service, a line that
  parses to a domain, in a list that was downloaded whole, blocks every query of any type for that
  domain or one below it, however the query is spelled, unless the name is on the allowlist or has
  a local record (or is filtered as IPv6): the answer is the unspecified address or NXDOMAIN, and
  no upstream is asked.
\<close>

theorem listed_line_blocks_query:
  assumes "boot b = Inr (c, source, h)" "completion_order c (be_order b)"
    and "i < length (cf_blocklists c)" "be_get b (snd (get_blocklists_sorted c ! i)) = Inr lines"
    and "\<forall>l \<in> set lines. isl l = False" "Inr line \<in> set lines"
    and "parse_line (be_uni b) line = Some d" "d \<noteq> []"
    and "rq_queries rq = (name, qt) # qs"
    and "normal_name name = d \<or> (\<exists>p. normal_name name = p @ CHR ''.'' # d)"
    and "normal_name name \<notin> set (cf_allowlist c)" "local_answer h (normal_name name) qt = None"
    and "\<not> (cf_disable_ipv6 c \<and> qt = RT_AAAA)" "en_send_ok env" "header_contract env"
  shows "let h' = snd (handle_request env rq h) in
    (\<exists>resp. dh_sent h' = [resp] \<and> hd_id (rs_header resp) = hd_id (rq_header rq)
       \<and> (hd_rcode (rs_header resp), map rec_data (rs_answers resp)) =
          (case qt of RT_A \<Rightarrow> (NoError, [RD_A 0]) | RT_AAAA \<Rightarrow> (NoError, [RD_AAAA 0])
           | RT_Other _ \<Rightarrow> (NXDomain, [])))
    \<and> dh_resolver h' = dh_resolver h \<and> dh_cache h' = dh_cache h"
proof -
  note h = boot_fields [OF assms(1)]
  obtain n u where nu: "get_blocklists_sorted c ! i = (n, u)" by fastforce
  have "(d, source_id_of i) \<in> set (task (be_uni b) (be_get b) c i)"
    using read_entries_complete [OF assms(5-7), of "source_id_of i"] assms(4)
    by (simp add: task_def fetch_and_parse_def nu)
  then have "d \<in> parsed_domains (be_uni b) (be_get b) c i"
    unfolding parsed_domains_def by (rule rev_image_eqI) simp
  then have "covered (\<Union>i < length (cf_blocklists c). parsed_domains (be_uni b) (be_get b) c i) (normal_name name)"
    using assms(3,8,10) unfolding covered_def by blast
  then obtain j where j: "check (dh_blocklist h) (normal_name name) = Some j"
    using standard_manager.rebuild_blocks_iff [OF assms(2), of "be_uni b" "be_get b" "normal_name name"]
      assms(11) unfolding h(5) by blast
  have "is_blocking_active (en_pause_check env) (dh_app_state h) = Inr True"
    by (simp add: h(2))
  from blocked_response [OF assms(9,14,15) this j assms(12)] assms(13) h(1,3) show ?thesis
    by (auto simp: Let_def)
qed

theorem listed_line_blocks_query_witness:
  "\<exists>source h. boot (sample_boot config_default [Inr ''ads'']) = Inr (config_default, source, h)
     \<and> (\<exists>resp. dh_sent (snd (handle_request (sample_env 5 (Inr [])) (sample_request ''ADS'' RT_A) h)) = [resp]
          \<and> map rec_data (rs_answers resp) = [RD_A 0])"
proof -
  let ?b = "sample_boot config_default [Inr ''ads'']"
  let ?env = "sample_env 5 (Inr [])" and ?rq = "sample_request ''ADS'' RT_A"
  obtain source h where b: "boot ?b = Inr (config_default, source, h)"
    using sample_boots by blast
  have "completion_order config_default (be_order ?b)" "0 < length (cf_blocklists config_default)"
    "be_get ?b (snd (get_blocklists_sorted config_default ! 0)) = Inr [Inr ''ads'']"
    "\<forall>l \<in> set [Inr ''ads'' :: string + string]. isl l = False"
    "Inr ''ads'' \<in> set [Inr ''ads'' :: string + string]"
    "parse_line (be_uni ?b) ''ads'' = Some ''ads''" "''ads'' \<noteq> []"
    "rq_queries ?rq = (''ADS'', RT_A) # []"
    "normal_name ''ADS'' = ''ads'' \<or> (\<exists>p. normal_name ''ADS'' = p @ CHR ''.'' # ''ads'')"
    "normal_name ''ADS'' \<notin> set (cf_allowlist config_default)"
    "local_answer h (normal_name ''ADS'') RT_A = None"
    "\<not> (cf_disable_ipv6 config_default \<and> RT_A = RT_AAAA)" "en_send_ok ?env" "header_contract ?env"
    by (simp_all add: completion_order_def sample_defaults sample_parse
        sample_name local_answer_def boot_fields [OF b])
  from listed_line_blocks_query [OF b this] b show ?thesis
    unfolding Let_def by (intro exI [of _ source] exI [of _ h] conjI) auto
qed

lemma decide_pause:
  "is_blocking_active (en_pause_check env) (dh_app_state h) = is_blocking_active (en_pause_check env) app \<Longrightarrow>
   decide env q h = decide env q (h\<lparr>dh_app_state := app\<rparr>)"
  by (simp add: decide_def local_answer_def check_cache_def cong: if_cong option.case_cong sum.case_cong)



text \<open>
  C31. The user interface shows what was answered. In every reachable state there is a log with one
  entry for each response sent, with the client, name and type of the request it answers and what
  became of it (none when logging is disabled), such that without a database \<open>GET /api/logs\<close> returns the latest hundred of the entries the ring
  buffer's task took, newest first: with those still in its channel they are a subsequence of that
  log, and all of it as long as that is a thousand or less.
\<close>

theorem ui_shows_logged:
  assumes "router_contract (ap_router ae)" "boot b = Inr (c, InMemorySource, h)"
    and "sys_reachable c (spawn_background_tasks now bind c InMemorySource h) s"
  shows "\<exists>log delivered.
    (if lg_enable (cf_logging c) then list_all2 (recorded (set (sy_requests s))) log (dh_sent (sy_handler s)) else log = [])
    \<and> fst (api_serve ae \<lparr>hq_method = GET, hq_path = ''/api/logs'', hq_body = []\<rparr> (api_view c s)) =
        Some (LogsReply (take 100 (rev delivered)))
    \<and> (let queue = ch_queue (tk_channel (last (dh_logger (sy_handler s)))) in
         subseq (delivered @ queue) log \<and> (length log \<le> 1000 \<longrightarrow> delivered @ queue = log))"
proof -
  obtain log where log:
    "if lg_enable (cf_logging c) then list_all2 (recorded (set (sy_requests s))) log (dh_sent (sy_handler s)) else log = []"
    "ring_follows (memory_new 100) log (last (dh_logger (sy_handler s)))"
    "\<And>m. tk_sink (last (dh_logger (sy_handler s))) = MemorySink m \<Longrightarrow> ring_of (dh_logger (sy_handler s)) = m"
    using memory_service_log [OF assms(2,3)] by blast
  then obtain delivered where d:
    "ring_of (dh_logger (sy_handler s)) = fold (\<lambda>e m. snd (memory_log e m)) delivered (memory_new 100)"
    "let queue = ch_queue (tk_channel (last (dh_logger (sy_handler s)))) in
       subseq (delivered @ queue) log \<and> (length log \<le> 1000 \<longrightarrow> delivered @ queue = log)"
    by (auto simp: ring_follows_def)
  have "sy_source s = InMemorySource" using reachable_source [OF assms(3)] by simp
  with get_logs_ring [OF assms(1) _ d(1)] d(2) log(1) show ?thesis by blast
qed

theorem ui_shows_logged_witness:
  "\<exists>h shown queue e. boot (sample_boot config_default [Inr ''ads'']) = Inr (config_default, InMemorySource, h)
     \<and> shown @ queue = [e] \<and> le_domain e = ''ads'' \<and> le_client_ip e = rq_src (sample_request ''ADS'' RT_A)
     \<and> fst (api_serve (sample_api_env 0) \<lparr>hq_method = GET, hq_path = ''/api/logs'', hq_body = []\<rparr>
         (api_view config_default (sample_answered h))) = Some (LogsReply (rev shown))"
proof -
  obtain h where b: "boot (sample_boot config_default [Inr ''ads'']) = Inr (config_default, InMemorySource, h)"
    and r: "sys_reachable config_default (spawn_background_tasks 0 free_port config_default InMemorySource h) (sample_answered h)"
    and sent: "length (dh_sent (sy_handler (sample_answered h))) = 1"
    and rq: "sy_requests (sample_answered h) = [sample_request ''ADS'' RT_A]"
    using sample_answered by blast
  from ui_shows_logged [OF sample_router b r] obtain log shown where
    log: "list_all2 (recorded {sample_request ''ADS'' RT_A}) log (dh_sent (sy_handler (sample_answered h)))"
    and shown: "fst (api_serve (sample_api_env 0) \<lparr>hq_method = GET, hq_path = ''/api/logs'', hq_body = []\<rparr>
      (api_view config_default (sample_answered h))) = Some (LogsReply (take 100 (rev shown)))"
    and all: "length log \<le> 1000 \<longrightarrow>
      shown @ ch_queue (tk_channel (last (dh_logger (sy_handler (sample_answered h))))) = log"
    using sample_logging unfolding Let_def rq by auto
  from sample_recorded [OF log sent] obtain e where e: "log = [e]" "le_domain e = ''ads''"
    "le_client_ip e = rq_src (sample_request ''ADS'' RT_A)" .
  moreover have "shown @ ch_queue (tk_channel (last (dh_logger (sy_handler (sample_answered h))))) = [e]"
    using all e(1) by simp
  moreover from this have "take 100 (rev shown) = rev shown" by (cases shown) auto
  ultimately show ?thesis using b shown by metis
qed

text \<open>
  C32. Every answer gets to be seen. From every reachable state of a service without a database that
  logs and has sent no more than a thousand responses, the tasks alone lead to a state in which
  nothing more has been sent and \<open>GET /api/logs\<close> returns the entries of the latest hundred of all
  the responses.
\<close>

theorem answers_become_visible:
  assumes "router_contract (ap_router ae)" "boot b = Inr (c, InMemorySource, h)"
    and "sys_reachable c (spawn_background_tasks now bind c InMemorySource h) s"
    and "lg_enable (cf_logging c)" "length (dh_sent (sy_handler s)) \<le> 1000"
  shows "\<exists>s' log. (task_step c)\<^sup>*\<^sup>* s s' \<and> dh_sent (sy_handler s') = dh_sent (sy_handler s)
    \<and> list_all2 (recorded (set (sy_requests s))) log (dh_sent (sy_handler s))
    \<and> fst (api_serve ae \<lparr>hq_method = GET, hq_path = ''/api/logs'', hq_body = []\<rparr> (api_view c s')) =
        Some (LogsReply (take 100 (rev log)))"
proof -
  obtain s' where s': "(task_step c)\<^sup>*\<^sup>* s s'" "dh_sent (sy_handler s') = dh_sent (sy_handler s)"
    "sy_requests s' = sy_requests s" "ch_queue (tk_channel (last (dh_logger (sy_handler s')))) = []"
    using memory_service_log [OF assms(2,3)] ring_drains by metis
  have r: "sys_reachable c (spawn_background_tasks now bind c InMemorySource h) s'"
    using tasks_reachable [OF s'(1) assms(3)] .
  obtain log where log:
    "list_all2 (recorded (set (sy_requests s))) log (dh_sent (sy_handler s))"
    "ring_follows (memory_new 100) log (last (dh_logger (sy_handler s')))"
    "\<And>m. tk_sink (last (dh_logger (sy_handler s'))) = MemorySink m \<Longrightarrow> ring_of (dh_logger (sy_handler s')) = m"
    using memory_service_log [OF assms(2) r] assms(4) unfolding s'(2,3) by metis
  have "length log \<le> 1000" using list_all2_lengthD [OF log(1)] assms(5) by simp
  then have "ring_of (dh_logger (sy_handler s')) = fold (\<lambda>e m. snd (memory_log e m)) log (memory_new 100)"
    using log(2,3) s'(4) by (auto simp: ring_follows_def)
  from get_logs_ring [OF assms(1) _ this] reachable_source [OF r] s'(1,2) log(1) show ?thesis by auto
qed

theorem answers_become_visible_witness:
  "\<exists>h s' e. boot (sample_boot config_default [Inr ''ads'']) = Inr (config_default, InMemorySource, h)
     \<and> (task_step config_default)\<^sup>*\<^sup>* (sample_answered h) s' \<and> le_domain e = ''ads''
     \<and> fst (api_serve (sample_api_env 0) \<lparr>hq_method = GET, hq_path = ''/api/logs'', hq_body = []\<rparr>
         (api_view config_default s')) = Some (LogsReply [e])"
proof -
  obtain h where b: "boot (sample_boot config_default [Inr ''ads'']) = Inr (config_default, InMemorySource, h)"
    and r: "sys_reachable config_default (spawn_background_tasks 0 free_port config_default InMemorySource h) (sample_answered h)"
    and sent: "length (dh_sent (sy_handler (sample_answered h))) = 1"
    and rq: "sy_requests (sample_answered h) = [sample_request ''ADS'' RT_A]"
    using sample_answered by blast
  have "length (dh_sent (sy_handler (sample_answered h))) \<le> 1000" using sent by simp
  from answers_become_visible [OF sample_router b r sample_logging this] obtain s' log where
    s': "(task_step config_default)\<^sup>*\<^sup>* (sample_answered h) s'"
    and log: "list_all2 (recorded {sample_request ''ADS'' RT_A}) log (dh_sent (sy_handler (sample_answered h)))"
    and shown: "fst (api_serve (sample_api_env 0) \<lparr>hq_method = GET, hq_path = ''/api/logs'', hq_body = []\<rparr>
      (api_view config_default s')) = Some (LogsReply (take 100 (rev log)))"
    unfolding rq by auto
  from sample_recorded [OF log sent] obtain e where "log = [e]" "le_domain e = ''ads''" .
  with b s' shown show ?thesis by auto
qed







end
